theory Spec2Isabelle
  imports Complex_Main "HOL-Library.Multiset"
begin

section \<open>JavaScript values\<close>

text \<open>
  The program is \<^verbatim>\<open>manifold-api.js\<close>. JavaScript numbers are idealised as
  reals: rounding, overflow and the infinities of IEEE doubles are outside the model.
  The one not-a-number the program itself can produce from well-typed data, an arithmetic
  operation on \<^verbatim>\<open>undefined\<close>, is kept as the value \<open>NaN\<close> of the type \<open>number\<close>.

  A field that the code only reads through \<^verbatim>\<open>x || default\<close> or a truthiness test
  is an \<open>option\<close> (\<open>None\<close>: absent or null). A field that the code compares with
  \<^verbatim>\<open>null\<close> or \<^verbatim>\<open>undefined\<close> by identity has the three-valued type \<open>js\<close>.
\<close>

datatype 'a js = Undefined | Null | Val 'a

datatype number = Num real | NaN

text \<open>\<^verbatim>\<open>x || d\<close> on numbers and on strings: 0 and the empty string are falsy.\<close>

definition or_num :: "real option \<Rightarrow> real \<Rightarrow> real" where
  "or_num x d = (case x of None \<Rightarrow> d | Some v \<Rightarrow> if v = 0 then d else v)"

definition or_str :: "string option \<Rightarrow> string \<Rightarrow> string" where
  "or_str x d = (case x of None \<Rightarrow> d | Some s \<Rightarrow> if s = [] then d else s)"

text \<open>\<^verbatim>\<open>x > 0\<close> where \<^verbatim>\<open>x\<close> may be undefined: the comparison is then false.\<close>

definition gt0 :: "real option \<Rightarrow> bool" where
  "gt0 x = (case x of None \<Rightarrow> False | Some v \<Rightarrow> 0 < v)"

text \<open>Truthiness of an optional number and of an optional string.\<close>

definition truthy_num :: "real option \<Rightarrow> bool" where
  "truthy_num x = (case x of None \<Rightarrow> False | Some v \<Rightarrow> v \<noteq> 0)"

definition truthy_str :: "string option \<Rightarrow> bool" where
  "truthy_str x = (case x of None \<Rightarrow> False | Some s \<Rightarrow> s \<noteq> [])"

text \<open>Conversion to a number: \<^verbatim>\<open>undefined\<close> becomes NaN, \<^verbatim>\<open>null\<close> becomes 0.\<close>

fun ToNumber :: "real js \<Rightarrow> number" where
  "ToNumber Undefined = NaN"
| "ToNumber Null = Num 0"
| "ToNumber (Val r) = Num r"

text \<open>Arithmetic propagates NaN; every comparison with NaN is false.\<close>

fun lift2 :: "(real \<Rightarrow> real \<Rightarrow> real) \<Rightarrow> number \<Rightarrow> number \<Rightarrow> number" where
  "lift2 f (Num a) (Num b) = Num (f a b)"
| "lift2 f _ _ = NaN"

fun num_gt0 :: "number \<Rightarrow> bool" where
  "num_gt0 (Num a) = (0 < a)"
| "num_gt0 NaN = False"

fun num_le0 :: "number \<Rightarrow> bool" where
  "num_le0 (Num a) = (a \<le> 0)"
| "num_le0 NaN = False"

text \<open>
  \<^verbatim>\<open>Math.pow\<close>. For a positive base this is the real power; \<^verbatim>\<open>Math.pow(x, 0)\<close>
  is 1 for every \<^verbatim>\<open>x\<close>, and \<^verbatim>\<open>Math.pow(0, a)\<close> is 0 for positive \<^verbatim>\<open>a\<close>. The
  remaining cases (a zero base with a negative exponent, a negative base) give an
  infinity or NaN in JavaScript and are outside the model.
\<close>

definition Math_pow :: "real \<Rightarrow> real \<Rightarrow> real" where
  "Math_pow x a = (if a = 0 then 1 else x powr a)"

section \<open>The AMM share-cost solver\<close>

record pool =
  YES :: "real option"
  NO :: "real option"

text \<open>The empty object \<^verbatim>\<open>{}\<close> read as a pool.\<close>

definition emptyPool :: pool where
  "emptyPool = \<lparr>YES = None, NO = None\<rparr>"

text \<open>
  The shares bought for \<open>betAmount\<close>. Every outcome string other than \<^verbatim>\<open>'YES'\<close> takes
  the second branch. The weight \<open>p\<close> of the data model lies strictly between 0 and 1; at
  0 or 1 one of the two quotients is infinite in JavaScript, which is outside the model.
\<close>

definition calculateCpmmShares :: "pool \<Rightarrow> real \<Rightarrow> real \<Rightarrow> string \<Rightarrow> real" where
  "calculateCpmmShares pool p betAmount outcome =
     (if betAmount = 0 then 0
      else
        let y = or_num (YES pool) 0;
            n = or_num (NO pool) 0;
            k = Math_pow y p * Math_pow n (1 - p)
        in if outcome = ''YES''
           then y + betAmount - Math_pow (k * Math_pow (betAmount + n) (p - 1)) (1 / p)
           else n + betAmount - Math_pow (k * Math_pow (betAmount + y) (- p)) (1 / (1 - p)))"

text \<open>
  The binary search of \<^verbatim>\<open>calculateAmountToBuyShares\<close>: the \<^verbatim>\<open>for\<close> loop with its
  counter \<open>i\<close> and its three variables. A \<^verbatim>\<open>return\<close> inside the loop is the branch
  that does not recurse.
\<close>

function bisect :: "pool \<Rightarrow> real \<Rightarrow> real \<Rightarrow> string \<Rightarrow> nat \<Rightarrow> real \<Rightarrow> real \<Rightarrow> real \<Rightarrow> real" where
  "bisect pool p shares outcome i minAmount maxAmount mid =
     (if i < 50 then
        let mid' = (minAmount + maxAmount) / 2;
            sharesReceived = calculateCpmmShares pool p mid' outcome
        in if \<bar>sharesReceived - shares\<bar> < 0.0001 then mid'
           else if sharesReceived < shares
           then bisect pool p shares outcome (i + 1) mid' maxAmount mid'
           else bisect pool p shares outcome (i + 1) minAmount mid' mid'
      else mid)"
  by pat_completeness auto
termination
  by (relation "measure (\<lambda>(pool, p, shares, outcome, i, minAmount, maxAmount, mid). 50 - i)") auto

declare bisect.simps [simp del]

text \<open>The local \<^verbatim>\<open>prob\<close> and the initial \<^verbatim>\<open>minAmount\<close> of \<^verbatim>\<open>calculateAmountToBuyShares\<close>.\<close>

definition poolProb :: "pool \<Rightarrow> real" where
  "poolProb pool =
     (let y = or_num (YES pool) 0; n = or_num (NO pool) 0
      in if y + n > 0 then n / (y + n) else 0.5)"

definition initialMinAmount :: "pool \<Rightarrow> real \<Rightarrow> string \<Rightarrow> real" where
  "initialMinAmount pool shares outcome =
     (if outcome = ''YES'' then shares * poolProb pool else shares * (1 - poolProb pool))"

definition calculateAmountToBuyShares :: "pool \<Rightarrow> real \<Rightarrow> real \<Rightarrow> string \<Rightarrow> real" where
  "calculateAmountToBuyShares pool p shares outcome =
     (if shares \<le> 0 then 0
      else bisect pool p shares outcome 0 (initialMinAmount pool shares outcome) shares 0)"

section \<open>The liquidation valuator\<close>

definition supported :: "string \<Rightarrow> bool" where
  "supported mechanism = (mechanism \<in> set [''cpmm-1'', ''cpmm-multi-1''])"

definition opposite :: "string \<Rightarrow> string" where
  "opposite outcome = (if outcome = ''YES'' then ''NO'' else ''YES'')"

definition calculateSaleValue :: "real \<Rightarrow> string \<Rightarrow> pool \<Rightarrow> real \<Rightarrow> string \<Rightarrow> real" where
  "calculateSaleValue shares outcome pool p mechanism =
     (if \<not> supported mechanism then 0
      else
        let y = or_num (YES pool) 0;
            n = or_num (NO pool) 0
        in if y \<le> 0 \<or> n \<le> 0 then 0
           else
             let oppositeOutcome = opposite outcome;
                 buyAmount = calculateAmountToBuyShares pool p shares oppositeOutcome
             in max 0 (shares - buyAmount))"

text \<open>The fair value with no slippage. Its third branch is an outcome string that is
  neither \<^verbatim>\<open>'YES'\<close> nor \<^verbatim>\<open>'NO'\<close>.\<close>

definition calculateSimpleSaleValue :: "real \<Rightarrow> real js \<Rightarrow> string \<Rightarrow> number" where
  "calculateSimpleSaleValue shares probability outcome =
     (if outcome = ''YES'' then lift2 (*) (Num shares) (ToNumber probability)
      else if outcome = ''NO''
      then lift2 (*) (Num shares) (lift2 (-) (Num 1) (ToNumber probability))
      else Num 0)"

section \<open>The return estimator\<close>

text \<open>
  The result \<open>None\<close> is the \<^verbatim>\<open>null\<close> of the source. The test \<^verbatim>\<open>!closeTime\<close> holds for
  an absent close time and for the number 0.
\<close>

definition calculateReturnIfCorrect :: "number \<Rightarrow> real \<Rightarrow> real option \<Rightarrow> real \<Rightarrow> number option" where
  "calculateReturnIfCorrect saleValue shares closeTime currentTime =
     (case closeTime of
        None \<Rightarrow> None
      | Some ct \<Rightarrow>
          if ct = 0 then None
          else
            let daysUntilClose = (ct - currentTime) / (1000 * 60 * 60 * 24)
            in if daysUntilClose \<le> 0 \<or> num_le0 saleValue then None
               else
                 let profitIfCorrect = lift2 (-) (Num shares) saleValue;
                     effectiveDays = max daysUntilClose 1
                 in Some (lift2 (*) (lift2 (/) profitIfCorrect saleValue)
                            (Num (365 / effectiveDays))))"

section \<open>The position pipeline\<close>

record answer =
  a_id :: string
  a_resolution :: "string js"
  a_prob :: "real js"
  a_text :: "string option"
  a_poolYes :: "real option"
  a_poolNo :: "real option"

record contract =
  c_id :: string
  c_isResolved :: bool
  c_mechanism :: "string option"
  c_closeTime :: "real option"
  c_question :: "string option"
  c_slug :: "string option"
  c_creatorUsername :: "string option"
  c_p :: "real option"
  c_prob :: "real js"
  c_pool :: "pool option"
  c_answers :: "answer list option"

record metrics =
  m_totalShares :: "pool option"
  m_answerId :: "string option"

text \<open>
  The raw data. \<open>r_metricsByContract\<close> is \<^verbatim>\<open>Object.entries(metricsByContract)\<close>: the
  keys of the object with their lists, in enumeration order.
\<close>

record rawData =
  r_contracts :: "contract list option"
  r_metricsByContract :: "(string \<times> metrics list) list option"

text \<open>\<^verbatim>\<open>contracts.forEach(c => contractsLookup[c.id] = c)\<close>: a later contract with the
  same id overwrites an earlier one.\<close>

definition contractsLookup :: "contract list \<Rightarrow> (string \<rightharpoonup> contract)" where
  "contractsLookup cs = fold (\<lambda>c m. m(c_id c \<mapsto> c)) cs Map.empty"

text \<open>
  The loop over the answers of a multi-outcome market. It stops at the first answer with
  the holding's id; a resolved answer leaves the three variables at their initial values
  \<^verbatim>\<open>null\<close>, \<^verbatim>\<open>{}\<close>, \<^verbatim>\<open>null\<close>.
\<close>

fun findAnswer :: "answer list \<Rightarrow> string \<Rightarrow> real js \<times> pool \<times> string option" where
  "findAnswer [] answerId = (Null, emptyPool, None)"
| "findAnswer (ans # rest) answerId =
     (if a_id ans = answerId then
        (if a_resolution ans \<noteq> Undefined \<and> a_resolution ans \<noteq> Null
         then (Null, emptyPool, None)
         else (a_prob ans,
               \<lparr>YES = Some (or_num (a_poolYes ans) 0), NO = Some (or_num (a_poolNo ans) 0)\<rparr>,
               Some (or_str (a_text ans) [])))
      else findAnswer rest answerId)"

text \<open>The variables \<^verbatim>\<open>probability\<close>, \<^verbatim>\<open>pool\<close> and \<^verbatim>\<open>answerText\<close> after the branch on
  the mechanism.\<close>

definition resolveMarket :: "string \<Rightarrow> contract \<Rightarrow> string option \<Rightarrow> real js \<times> pool \<times> string option" where
  "resolveMarket mechanism contract answerId =
     (if mechanism = ''cpmm-1''
      then (c_prob contract, (case c_pool contract of None \<Rightarrow> emptyPool | Some pl \<Rightarrow> pl), None)
      else if mechanism = ''cpmm-multi-1'' \<and> truthy_str answerId
      then findAnswer (case c_answers contract of None \<Rightarrow> [] | Some as \<Rightarrow> as)
             (case answerId of None \<Rightarrow> [] | Some a \<Rightarrow> a)
      else (Null, emptyPool, None))"

text \<open>The fallback: only a probability that is identical to \<^verbatim>\<open>null\<close> is replaced by the
  pool ratio; \<open>None\<close> is the \<^verbatim>\<open>continue\<close>.\<close>

definition fallbackProbability :: "real js \<Rightarrow> pool \<Rightarrow> real js option" where
  "fallbackProbability probability pool =
     (if probability = Null then
        let yesPool = or_num (YES pool) 0;
            noPool = or_num (NO pool) 0
        in if yesPool > 0 \<and> noPool > 0 then Some (Val (noPool / (yesPool + noPool)))
           else None
      else Some probability)"

record position =
  contractId :: string
  question :: string
  answer :: "string option"
  url :: string
  outcome :: string
  shares :: real
  saleValue :: number
  fairValue :: number
  slippage :: number
  probability :: "real js"
  daysUntilClose :: "real option"
  returnIfCorrect :: "number option"

text \<open>The body of the loop over the holdings of one market: \<open>None\<close> is a \<^verbatim>\<open>continue\<close>,
  \<open>Some\<close> the record pushed. The clock reading \<^verbatim>\<open>Date.now()\<close> is the parameter
  \<open>currentTime\<close>.\<close>

definition processMetrics :: "real \<Rightarrow> string \<Rightarrow> contract \<Rightarrow> string \<Rightarrow> metrics \<Rightarrow> position option" where
  "processMetrics currentTime cid contract mechanism metrics =
     (let totalShares = (case m_totalShares metrics of None \<Rightarrow> emptyPool | Some ts \<Rightarrow> ts);
          yesShares = or_num (YES totalShares) 0;
          noShares = or_num (NO totalShares) 0
      in if yesShares \<le> 0 \<and> noShares \<le> 0 then None
         else
           let outcome' = (if yesShares > noShares then ''YES'' else ''NO'');
               shares' = (if yesShares > noShares then yesShares else noShares)
           in if shares' < 0.01 then None
              else
                let closeTime = c_closeTime contract;
                    question' = or_str (c_question contract) ''Unknown'';
                    slug = or_str (c_slug contract) [];
                    creatorUsername = or_str (c_creatorUsername contract) [];
                    url' = (if slug \<noteq> [] then ''https://manifold.markets/'' @ creatorUsername @ ''/'' @ slug
                            else []);
                    p = or_num (c_p contract) 0.5;
                    (probability0, pool, answerText) =
                       resolveMarket mechanism contract (m_answerId metrics)
                in case fallbackProbability probability0 pool of
                     None \<Rightarrow> None
                   | Some probability' \<Rightarrow>
                       let ammSaleValue =
                             (if gt0 (YES pool) \<and> gt0 (NO pool)
                              then calculateSaleValue shares' outcome' pool p mechanism else 0);
                           fairValue' = calculateSimpleSaleValue shares' probability' outcome';
                           saleValue' = (if ammSaleValue > 0 then Num ammSaleValue else fairValue');
                           slippage' =
                             (if num_gt0 fairValue' \<and> ammSaleValue > 0
                              then lift2 (/) (lift2 (-) fairValue' (Num ammSaleValue)) fairValue'
                              else Num 0);
                           returnIfCorrect' =
                             calculateReturnIfCorrect saleValue' shares' closeTime currentTime;
                           daysUntilClose' =
                             (if truthy_num closeTime
                              then Some ((or_num closeTime 0 - currentTime) / (1000 * 60 * 60 * 24))
                              else None)
                       in Some \<lparr>contractId = cid, question = question', answer = answerText,
                                 url = url', outcome = outcome', shares = shares',
                                 saleValue = saleValue', fairValue = fairValue',
                                 slippage = slippage', probability = probability',
                                 daysUntilClose = daysUntilClose',
                                 returnIfCorrect = returnIfCorrect'\<rparr>)"

text \<open>One iteration of the outer loop: the market's guards, then the holdings in order.\<close>

definition processEntry :: "real \<Rightarrow> (string \<rightharpoonup> contract) \<Rightarrow> string \<times> metrics list \<Rightarrow> position list" where
  "processEntry currentTime lookup entry =
     (case lookup (fst entry) of
        None \<Rightarrow> []
      | Some contract \<Rightarrow>
          if c_isResolved contract then []
          else
            let mechanism = or_str (c_mechanism contract) []
            in if \<not> supported mechanism then []
               else List.map_filter (processMetrics currentTime (fst entry) contract mechanism)
                      (snd entry))"

definition processPositions :: "real \<Rightarrow> rawData \<Rightarrow> position list" where
  "processPositions currentTime rawData =
     (let contracts = (case r_contracts rawData of None \<Rightarrow> [] | Some cs \<Rightarrow> cs);
          metricsByContract = (case r_metricsByContract rawData of None \<Rightarrow> [] | Some ms \<Rightarrow> ms)
      in concat (map (processEntry currentTime (contractsLookup contracts)) metricsByContract))"

section \<open>Ranking\<close>

definition MARGIN_RATE_DAILY :: real where
  "MARGIN_RATE_DAILY = 0.0003"

definition MARGIN_RATE_ANNUAL :: real where
  "MARGIN_RATE_ANNUAL = MARGIN_RATE_DAILY * 365"

text \<open>\<^verbatim>\<open>p.returnIfCorrect !== null\<close>, and the two comparisons with the margin rate, false
  on NaN.\<close>

definition hasReturn :: "position \<Rightarrow> bool" where
  "hasReturn q = (returnIfCorrect q \<noteq> None)"

definition belowRate :: "position \<Rightarrow> bool" where
  "belowRate q = (case returnIfCorrect q of Some (Num r) \<Rightarrow> r < MARGIN_RATE_ANNUAL | _ \<Rightarrow> False)"

definition atOrAboveRate :: "position \<Rightarrow> bool" where
  "atOrAboveRate q = (case returnIfCorrect q of Some (Num r) \<Rightarrow> r \<ge> MARGIN_RATE_ANNUAL | _ \<Rightarrow> False)"

text \<open>The sort key \<^verbatim>\<open>(a.returnIfCorrect || 0)\<close>. \<^verbatim>\<open>Array.prototype.sort\<close> with the
  comparator \<^verbatim>\<open>key(a) - key(b)\<close> is a stable sort by the key, here \<open>sort_key\<close>; with
  \<^verbatim>\<open>key(b) - key(a)\<close> it is the stable sort by the negated key.\<close>

definition returnOr0 :: "position \<Rightarrow> real" where
  "returnOr0 q = (case returnIfCorrect q of Some (Num r) \<Rightarrow> r | _ \<Rightarrow> 0)"

definition getPositionsBelowMarginRate :: "position list \<Rightarrow> position list" where
  "getPositionsBelowMarginRate positions =
     sort_key returnOr0 (filter (\<lambda>q. hasReturn q \<and> belowRate q) positions)"

definition getAllPositionsSorted :: "position list \<Rightarrow> position list" where
  "getAllPositionsSorted positions =
     (let withReturns = filter hasReturn positions;
          belowMargin = filter belowRate withReturns;
          aboveMargin = filter atOrAboveRate withReturns
      in sort_key returnOr0 belowMargin @ sort_key (\<lambda>q. - returnOr0 q) aboveMargin)"

text \<open>
  The side of a market on which the pool ratio \<open>poolProb\<close> that the search starts from is
  at most the probability weighted by \<open>p\<close>: YES when \<open>p\<close> is at least 1/2, any other
  outcome when \<open>p\<close> is at most 1/2. It is used to state for which inputs the search
  brackets the cost.
\<close>

definition soundSide :: "real \<Rightarrow> string \<Rightarrow> bool" where
  "soundSide p oc = (if oc = ''YES'' then 1 / 2 \<le> p else p \<le> 1 / 2)"

section \<open>Concrete inputs\<close>

text \<open>Pools, a market and a portfolio at which the functions are evaluated below.\<close>

definition pool_1_1 :: pool where
  "pool_1_1 = \<lparr>YES = Some 1, NO = Some 1\<rparr>"

definition pool_1_99 :: pool where
  "pool_1_99 = \<lparr>YES = Some 1, NO = Some 99\<rparr>"

definition pool_50_50 :: pool where
  "pool_50_50 = \<lparr>YES = Some 50, NO = Some 50\<rparr>"

definition clockContract :: contract where
  "clockContract = \<lparr>c_id = ''m1'', c_isResolved = False, c_mechanism = Some ''cpmm-1'',
     c_closeTime = Some 172800000, c_question = Some ''Q'', c_slug = None,
     c_creatorUsername = None, c_p = None, c_prob = Val (1/2), c_pool = None,
     c_answers = None\<rparr>"

definition clockRaw :: rawData where
  "clockRaw = \<lparr>r_contracts = Some [clockContract],
     r_metricsByContract =
       Some [(''m1'', [\<lparr>m_totalShares = Some \<lparr>YES = Some 10, NO = None\<rparr>, m_answerId = None\<rparr>])]\<rparr>"

definition noProbContract :: contract where
  "noProbContract = \<lparr>c_id = ''m2'', c_isResolved = False, c_mechanism = Some ''cpmm-1'',
     c_closeTime = None, c_question = Some ''Q'', c_slug = None,
     c_creatorUsername = None, c_p = None, c_prob = Undefined, c_pool = None,
     c_answers = None\<rparr>"

definition noProbRaw :: rawData where
  "noProbRaw = \<lparr>r_contracts = Some [noProbContract],
     r_metricsByContract =
       Some [(''m2'', [\<lparr>m_totalShares = Some \<lparr>YES = Some 10, NO = None\<rparr>, m_answerId = None\<rparr>])]\<rparr>"

text \<open>A portfolio with a holding in a binary market and one in an answer of a
  multiple-choice market, both with funded pools.\<close>

definition ammContract1 :: contract where
  "ammContract1 = \<lparr>c_id = ''m1'', c_isResolved = False, c_mechanism = Some ''cpmm-1'',
     c_closeTime = Some 2592000000, c_question = Some ''Q1'', c_slug = Some ''q1'',
     c_creatorUsername = Some ''u'', c_p = Some (1/2), c_prob = Val (1/2),
     c_pool = Some \<lparr>YES = Some 50, NO = Some 50\<rparr>, c_answers = None\<rparr>"

definition ammContract2 :: contract where
  "ammContract2 = \<lparr>c_id = ''m2'', c_isResolved = False, c_mechanism = Some ''cpmm-multi-1'',
     c_closeTime = None, c_question = Some ''Q2'', c_slug = None,
     c_creatorUsername = None, c_p = None, c_prob = Undefined, c_pool = None,
     c_answers = Some
       [\<lparr>a_id = ''a'', a_resolution = Val ''YES'', a_prob = Val 1, a_text = Some ''A'',
          a_poolYes = Some 20, a_poolNo = Some 80\<rparr>,
        \<lparr>a_id = ''b'', a_resolution = Undefined, a_prob = Val (7/10), a_text = Some ''B'',
          a_poolYes = Some 30, a_poolNo = Some 70\<rparr>]\<rparr>"

definition ammRaw :: rawData where
  "ammRaw = \<lparr>r_contracts = Some [ammContract1, ammContract2],
     r_metricsByContract =
       Some [(''m1'', [\<lparr>m_totalShares = Some \<lparr>YES = Some 10, NO = None\<rparr>, m_answerId = None\<rparr>]),
             (''m2'', [\<lparr>m_totalShares = Some \<lparr>YES = Some 0, NO = Some 10\<rparr>,
                        m_answerId = Some ''b''\<rparr>])]\<rparr>"

section \<open>The binary search stays inside its interval\<close>

lemma bisect_bounds:
  "lo \<le> hi \<Longrightarrow> i < 50 \<or> (lo \<le> mid \<and> mid \<le> hi) \<Longrightarrow>
   lo \<le> bisect pool p s oc i lo hi mid \<and> bisect pool p s oc i lo hi mid \<le> hi"
proof (induction pool p s oc i lo hi mid rule: bisect.induct)
  case (1 pool p s oc i lo hi mid)
  show ?case
  proof (cases "i < 50")
    case False
    with 1 show ?thesis by (simp add: bisect.simps)
  next
    case True
    let ?m = "(lo + hi) / 2"
    have m: "lo \<le> ?m" "?m \<le> hi" using 1(3) by simp_all
    show ?thesis
      using 1(1)[OF True refl refl] 1(2)[OF True refl refl] m True
      by (subst (1 2) bisect.simps) (auto simp: Let_def)
  qed
qed

lemma poolProb_range:
  "0 \<le> or_num (YES pool) 0 \<Longrightarrow> 0 \<le> or_num (NO pool) 0 \<Longrightarrow>
   0 \<le> poolProb pool \<and> poolProb pool \<le> 1"
  by (auto simp: poolProb_def Let_def divide_le_eq)

lemma initialMinAmount_range:
  assumes "0 \<le> or_num (YES pool) 0" "0 \<le> or_num (NO pool) 0" "0 \<le> s"
  shows "0 \<le> initialMinAmount pool s oc \<and> initialMinAmount pool s oc \<le> s"
proof -
  from poolProb_range[OF assms(1,2)] have q: "0 \<le> poolProb pool" "poolProb pool \<le> 1"
    by simp_all
  have "s * poolProb pool \<le> s * 1" using q assms(3) by (intro mult_left_mono) simp_all
  moreover have "s * (1 - poolProb pool) \<le> s * 1" using q assms(3) by (intro mult_left_mono) simp_all
  ultimately show ?thesis using q assms(3) by (simp add: initialMinAmount_def)
qed

lemma amount_range:
  assumes "0 \<le> or_num (YES pool) 0" "0 \<le> or_num (NO pool) 0" "0 < s"
  shows "initialMinAmount pool s oc \<le> calculateAmountToBuyShares pool p s oc"
    and "calculateAmountToBuyShares pool p s oc \<le> s"
proof -
  have r: "initialMinAmount pool s oc \<le> s"
    using initialMinAmount_range[OF assms(1,2), of s oc] assms(3) by simp
  from bisect_bounds[OF r, of 0 0 pool p s oc] assms(3)
  show "initialMinAmount pool s oc \<le> calculateAmountToBuyShares pool p s oc"
    and "calculateAmountToBuyShares pool p s oc \<le> s"
    by (simp_all add: calculateAmountToBuyShares_def)
qed

text \<open>
  Claim C1. For a supported mechanism and two strictly positive reserves the liquidation
  value is the face value minus the cost of as many shares of the opposite outcome,
  floored at 0; in every other case it is exactly 0.
\<close>

theorem calculateSaleValue_liquidation:
  "calculateSaleValue s oc pool p mechanism =
     (if (mechanism = ''cpmm-1'' \<or> mechanism = ''cpmm-multi-1'')
         \<and> 0 < or_num (YES pool) 0 \<and> 0 < or_num (NO pool) 0
      then max 0 (s - calculateAmountToBuyShares pool p s (if oc = ''YES'' then ''NO'' else ''YES''))
      else 0)"
  by (simp add: calculateSaleValue_def supported_def opposite_def Let_def not_less)

text \<open>
  Claim C3. For a non-negative number of shares the liquidation value lies between 0 and
  the face value, whatever the pool, the weight and the mechanism. For a positive number of
  shares and a pool of the data model (both reserves non-negative) the amount returned by
  \<open>calculateAmountToBuyShares\<close> lies between 0 and the number of shares.
\<close>

theorem liquidation_value_bounds:
  "(0 \<le> s \<longrightarrow>
      0 \<le> calculateSaleValue s oc pool p mechanism \<and> calculateSaleValue s oc pool p mechanism \<le> s)
   \<and> (0 < s \<and> 0 \<le> or_num (YES pool) 0 \<and> 0 \<le> or_num (NO pool) 0 \<longrightarrow>
      0 \<le> calculateAmountToBuyShares pool p s oc \<and> calculateAmountToBuyShares pool p s oc \<le> s)"
proof (intro conjI impI)
  assume s: "0 \<le> s"
  show "0 \<le> calculateSaleValue s oc pool p mechanism"
    by (simp add: calculateSaleValue_def Let_def)
  show "calculateSaleValue s oc pool p mechanism \<le> s"
  proof (cases "supported mechanism \<and> 0 < or_num (YES pool) 0 \<and> 0 < or_num (NO pool) 0")
    case False
    then show ?thesis using s by (auto simp: calculateSaleValue_def Let_def not_less)
  next
    case True
    have "0 \<le> calculateAmountToBuyShares pool p s (opposite oc)"
    proof (cases "0 < s")
      case False
      then show ?thesis by (simp add: calculateAmountToBuyShares_def)
    next
      case pos: True
      have "0 \<le> initialMinAmount pool s (opposite oc)"
        using initialMinAmount_range[of pool s] True s by simp
      also have "\<dots> \<le> calculateAmountToBuyShares pool p s (opposite oc)"
        using amount_range(1)[of pool s] True pos by simp
      finally show ?thesis .
    qed
    then show ?thesis using True s by (simp add: calculateSaleValue_def Let_def)
  qed
next
  assume a: "0 < s \<and> 0 \<le> or_num (YES pool) 0 \<and> 0 \<le> or_num (NO pool) 0"
  have "0 \<le> initialMinAmount pool s oc"
    using initialMinAmount_range[of pool s oc] a by simp
  also have "\<dots> \<le> calculateAmountToBuyShares pool p s oc"
    using amount_range(1)[of pool s oc p] a by simp
  finally show "0 \<le> calculateAmountToBuyShares pool p s oc" .
  show "calculateAmountToBuyShares pool p s oc \<le> s"
    using amount_range(2)[of pool s p oc] a by simp
qed

text \<open>The bounds at the pool of 50 and 50 with ten shares.\<close>

theorem liquidation_value_bounds_witness:
  "0 \<le> calculateSaleValue 10 ''YES'' pool_50_50 (1/2) ''cpmm-1''
   \<and> calculateSaleValue 10 ''YES'' pool_50_50 (1/2) ''cpmm-1'' \<le> 10
   \<and> 0 \<le> calculateAmountToBuyShares pool_50_50 (1/2) 10 ''NO''
   \<and> calculateAmountToBuyShares pool_50_50 (1/2) 10 ''NO'' \<le> 10"
  using liquidation_value_bounds[of 10 "''YES''" "pool_50_50" "1/2" "''cpmm-1''"]
        liquidation_value_bounds[of 10 "''NO''" "pool_50_50" "1/2" "''cpmm-1''"]
  by (simp add: or_num_def pool_50_50_def)

section \<open>The shape of the search and its lower bound\<close>

lemma bisect_midpoint:
  "n = 50 - i \<Longrightarrow> 1 \<le> n \<Longrightarrow>
   \<exists>k j. 1 \<le> k \<and> k \<le> n \<and> j < 2 ^ (k - 1)
      \<and> bisect pool p s oc i lo hi mid = lo + (hi - lo) * (2 * real j + 1) / 2 ^ k
      \<and> (k < n \<longrightarrow> \<bar>calculateCpmmShares pool p (bisect pool p s oc i lo hi mid) oc - s\<bar> < 1 / 10000)"
proof (induction n arbitrary: i lo hi mid)
  case 0
  then show ?case by simp
next
  case (Suc n)
  then have i: "i < 50" and n: "n = 50 - (i + 1)" by simp_all
  let ?m = "(lo + hi) / 2"
  let ?g = "\<lambda>b. calculateCpmmShares pool p b oc"
  have m0: "?m = lo + (hi - lo) * (2 * real (0::nat) + 1) / 2 ^ (1::nat)" by (simp add: field_simps)
  show ?case
  proof (cases "\<bar>?g ?m - s\<bar> < 0.0001")
    case True
    then have r: "bisect pool p s oc i lo hi mid = ?m"
      using i by (subst bisect.simps) (simp add: Let_def)
    have "\<bar>?g (bisect pool p s oc i lo hi mid) - s\<bar> < 1 / 10000"
      unfolding r using True by simp
    then show ?thesis
      using r m0 by (intro exI[of _ "1::nat"] exI[of _ "0::nat"]) simp
  next
    case acc: False
    show ?thesis
    proof (cases "n = 0")
      case True
      then have i1: "\<not> i + 1 < 50" using n by simp
      have "bisect pool p s oc i lo hi mid = ?m"
        using i acc i1 by (subst bisect.simps, simp add: Let_def) (simp add: bisect.simps)
      then show ?thesis
        using True m0 by (intro exI[of _ "1::nat"] exI[of _ "0::nat"]) simp
    next
      case False
      then have n1: "1 \<le> n" by simp
      show ?thesis
      proof (cases "?g ?m < s")
        case True
        have r: "bisect pool p s oc i lo hi mid = bisect pool p s oc (i + 1) ?m hi ?m"
          using i acc True by (subst bisect.simps) (simp add: Let_def)
        from Suc.IH[OF n n1, of ?m hi ?m] obtain k j where
          k: "1 \<le> k" "k \<le> n" "j < 2 ^ (k - 1)"
          and e: "bisect pool p s oc (i + 1) ?m hi ?m = ?m + (hi - ?m) * (2 * real j + 1) / 2 ^ k"
          and a: "k < n \<longrightarrow> \<bar>?g (bisect pool p s oc (i + 1) ?m hi ?m) - s\<bar> < 1 / 10000"
          by blast
        have p2: "(2::nat) ^ k = 2 * 2 ^ (k - 1)" using k(1) by (cases k) simp_all
        have p2r: "(2::real) ^ k = 2 * 2 ^ (k - 1)" using k(1) by (cases k) simp_all
        have "?m + (hi - ?m) * (2 * real j + 1) / 2 ^ k
            = lo + (hi - lo) * (2 * real (2 ^ (k - 1) + j) + 1) / 2 ^ Suc k"
          by (simp add: p2r field_simps)
        moreover have "2 ^ (k - 1) + j < 2 ^ (Suc k - 1)" using k(3) p2 by simp
        ultimately show ?thesis
          using k a e unfolding r
          by (intro exI[of _ "Suc k"] exI[of _ "2 ^ (k - 1) + j"]) simp
      next
        case False
        have r: "bisect pool p s oc i lo hi mid = bisect pool p s oc (i + 1) lo ?m ?m"
          using i acc False by (subst bisect.simps) (simp add: Let_def)
        from Suc.IH[OF n n1, of lo ?m ?m] obtain k j where
          k: "1 \<le> k" "k \<le> n" "j < 2 ^ (k - 1)"
          and e: "bisect pool p s oc (i + 1) lo ?m ?m = lo + (?m - lo) * (2 * real j + 1) / 2 ^ k"
          and a: "k < n \<longrightarrow> \<bar>?g (bisect pool p s oc (i + 1) lo ?m ?m) - s\<bar> < 1 / 10000"
          by blast
        have p2: "(2::nat) ^ k = 2 * 2 ^ (k - 1)" using k(1) by (cases k) simp_all
        have "lo + (?m - lo) * (2 * real j + 1) / 2 ^ k
            = lo + (hi - lo) * (2 * real j + 1) / 2 ^ Suc k"
          by (simp add: field_simps)
        moreover have "j < 2 ^ (Suc k - 1)" using k(3) p2 by simp
        ultimately show ?thesis
          using k a e unfolding r
          by (intro exI[of _ "Suc k"] exI[of _ j]) simp
      qed
    qed
  qed
qed

lemma amount_is_midpoint:
  assumes "0 < s"
  shows "\<exists>k j. 1 \<le> k \<and> k \<le> 50 \<and> j < 2 ^ (k - 1)
      \<and> calculateAmountToBuyShares pool p s oc
          = initialMinAmount pool s oc + (s - initialMinAmount pool s oc) * (2 * real j + 1) / 2 ^ k
      \<and> (k < 50 \<longrightarrow>
           \<bar>calculateCpmmShares pool p (calculateAmountToBuyShares pool p s oc) oc - s\<bar> < 1 / 10000)"
  using bisect_midpoint[of 50 0 pool p s oc "initialMinAmount pool s oc" s 0] assms
  by (simp add: calculateAmountToBuyShares_def)

lemma shares_quarter_YES:
  assumes "0 < b"
  shows "calculateCpmmShares pool_1_1 (1/4) b ''YES'' = 1 + b - 1 / (b + 1) ^ 3"
proof -
  have "((b + 1) powr (- (3/4))) powr 4 = (b + 1) powr (- 3)"
    by (simp add: powr_powr)
  also have "\<dots> = 1 / (b + 1) ^ 3"
    using assms by (simp add: powr_minus powr_numeral inverse_eq_divide)
  finally show ?thesis using assms
    by (simp add: calculateCpmmShares_def pool_1_1_def or_num_def Math_pow_def Let_def)
qed

text \<open>
  Claim C2. The search is a bisection over the interval from \<open>initialMinAmount\<close> to the
  number of shares with at most 50 halvings and early acceptance within \<open>1e-4\<close>
  (\<open>amount_is_midpoint\<close>, \<open>amount_range\<close>), but its lower bound is not a low estimate of
  the cost when the weight is not 1/2. On the pool of 1 and 1 at the weight 1/4, spending
  1/2 on YES buys exactly 65/54 shares; for 65/54 shares the search starts at
  65/108, above 1/2, every midpoint buys too many shares, and the amount returned buys more
  than 65/54 + 1/10 shares.
\<close>

theorem lower_bound_above_true_cost:
  "calculateCpmmShares pool_1_1 (1/4) (1/2) ''YES'' = 65/54
   \<and> initialMinAmount pool_1_1 (65/54) ''YES'' = 65/108
   \<and> calculateAmountToBuyShares pool_1_1 (1/4) (65/54) ''YES'' = 65/108 + 65/108 / 2 ^ 50
   \<and> 65/54 + 1/10
       < calculateCpmmShares pool_1_1 (1/4)
           (calculateAmountToBuyShares pool_1_1 (1/4) (65/54) ''YES'') ''YES''"
proof -
  have a: "calculateCpmmShares pool_1_1 (1/4) (1/2) ''YES'' = 65/54"
    by (simp add: shares_quarter_YES power3_eq_cube)
  have b: "initialMinAmount pool_1_1 (65/54) ''YES'' = 65/108"
    by (simp add: initialMinAmount_def poolProb_def pool_1_1_def or_num_def)
  have "bisect pool_1_1 (1/4) (65/54) ''YES'' 0 (65/108) (65/54) 0 = 65/108 + 65/108 / 2 ^ 50"
    by (simp add: bisect.simps shares_quarter_YES Let_def power3_eq_cube)
  then have c: "calculateAmountToBuyShares pool_1_1 (1/4) (65/54) ''YES'' = 65/108 + 65/108 / 2 ^ 50"
    by (simp add: calculateAmountToBuyShares_def b)
  have d: "65/54 + 1/10 < calculateCpmmShares pool_1_1 (1/4) (65/108 + 65/108 / 2 ^ 50) ''YES''"
    by (simp add: shares_quarter_YES power3_eq_cube)
  have d': "65/54 + 1/10
       < calculateCpmmShares pool_1_1 (1/4)
           (calculateAmountToBuyShares pool_1_1 (1/4) (65/54) ''YES'') ''YES''"
    unfolding c by (rule d)
  from a b c d' show ?thesis by blast
qed

section \<open>The curve and the error of the search\<close>

text \<open>
  With positive reserves and a weight strictly between 0 and 1 the shares bought for an
  amount \<open>b\<close> are \<open>y + b - y * (n / (b + n)) powr ((1 - p) / p)\<close> for YES, and the mirror
  image for any other outcome.
\<close>

lemma powr_ratio:
  fixes u v e :: real
  assumes "0 < u" "0 < v"
  shows "u powr e * v powr (- e) = (u / v) powr e"
  using assms by (simp add: powr_divide powr_minus field_simps)

lemma shares_YES_closed:
  assumes y: "0 < or_num (YES pool) 0" and n: "0 < or_num (NO pool) 0"
    and p: "0 < p" "p < 1" and b: "0 \<le> b"
  shows "calculateCpmmShares pool p b ''YES'' =
         or_num (YES pool) 0 + b
         - or_num (YES pool) 0 * (or_num (NO pool) 0 / (b + or_num (NO pool) 0)) powr ((1 - p) / p)"
proof (cases "b = 0")
  case True
  with y n show ?thesis by (simp add: calculateCpmmShares_def)
next
  case False
  define yy where "yy = or_num (YES pool) 0"
  define nn where "nn = or_num (NO pool) 0"
  have pos: "0 < yy" "0 < nn" "0 < b + nn" using y n b by (simp_all add: yy_def nn_def)
  have "(yy powr p * nn powr (1 - p) * (b + nn) powr (p - 1)) powr (1 / p)
      = (yy powr p) powr (1 / p) * (nn powr (1 - p)) powr (1 / p) * ((b + nn) powr (p - 1)) powr (1 / p)"
    by (simp add: powr_mult)
  also have "\<dots> = yy * (nn powr ((1 - p) / p) * (b + nn) powr (- ((1 - p) / p)))"
  proof -
    have e: "(p - 1) * (1 / p) = - ((1 - p) / p)"
      by (simp only: minus_divide_left minus_diff_eq times_divide_eq_right mult_1_right)
    have "(yy powr p) powr (1 / p) = yy" using pos p by (simp add: powr_powr)
    moreover have "(nn powr (1 - p)) powr (1 / p) = nn powr ((1 - p) / p)"
      by (simp add: powr_powr)
    moreover have "((b + nn) powr (p - 1)) powr (1 / p) = (b + nn) powr (- ((1 - p) / p))"
      unfolding powr_powr e ..
    ultimately show ?thesis by (simp only: mult.assoc)
  qed
  also have "nn powr ((1 - p) / p) * (b + nn) powr (- ((1 - p) / p)) = (nn / (b + nn)) powr ((1 - p) / p)"
    using pos by (intro powr_ratio)
  finally have "(yy powr p * nn powr (1 - p) * (b + nn) powr (p - 1)) powr (1 / p)
      = yy * (nn / (b + nn)) powr ((1 - p) / p)" .
  then show ?thesis
    using False p
    by (simp add: calculateCpmmShares_def Math_pow_def Let_def yy_def[symmetric] nn_def[symmetric])
qed

lemma shares_NO_closed:
  assumes y: "0 < or_num (YES pool) 0" and n: "0 < or_num (NO pool) 0"
    and p: "0 < p" "p < 1" and b: "0 \<le> b" and oc: "oc \<noteq> ''YES''"
  shows "calculateCpmmShares pool p b oc =
         or_num (NO pool) 0 + b
         - or_num (NO pool) 0 * (or_num (YES pool) 0 / (b + or_num (YES pool) 0)) powr (p / (1 - p))"
proof (cases "b = 0")
  case True
  with y n show ?thesis by (simp add: calculateCpmmShares_def)
next
  case False
  define yy where "yy = or_num (YES pool) 0"
  define nn where "nn = or_num (NO pool) 0"
  have pos: "0 < yy" "0 < nn" "0 < b + yy" using y n b by (simp_all add: yy_def nn_def)
  have "(yy powr p * nn powr (1 - p) * (b + yy) powr (- p)) powr (1 / (1 - p))
      = (yy powr p) powr (1 / (1 - p)) * (nn powr (1 - p)) powr (1 / (1 - p))
        * ((b + yy) powr (- p)) powr (1 / (1 - p))"
    by (simp add: powr_mult)
  also have "\<dots> = nn * (yy powr (p / (1 - p)) * (b + yy) powr (- (p / (1 - p))))"
  proof -
    have e: "- p * (1 / (1 - p)) = - (p / (1 - p))" by simp
    have "(nn powr (1 - p)) powr (1 / (1 - p)) = nn" using pos p by (simp add: powr_powr)
    moreover have "(yy powr p) powr (1 / (1 - p)) = yy powr (p / (1 - p))"
      by (simp add: powr_powr)
    moreover have "((b + yy) powr (- p)) powr (1 / (1 - p)) = (b + yy) powr (- (p / (1 - p)))"
      unfolding powr_powr e ..
    ultimately show ?thesis by (simp only: mult.assoc mult.left_commute[of _ nn])
  qed
  also have "yy powr (p / (1 - p)) * (b + yy) powr (- (p / (1 - p))) = (yy / (b + yy)) powr (p / (1 - p))"
    using pos by (intro powr_ratio)
  finally have "(yy powr p * nn powr (1 - p) * (b + yy) powr (- p)) powr (1 / (1 - p))
      = nn * (yy / (b + yy)) powr (p / (1 - p))" .
  then show ?thesis
    using False p oc
    by (simp add: calculateCpmmShares_def Math_pow_def Let_def yy_def[symmetric] nn_def[symmetric])
qed

lemma ratio_powr_lipschitz:
  fixes n a b1 b2 :: real
  assumes n: "0 < n" and a: "0 \<le> a" "a \<le> 1" and b: "0 \<le> b1" "b1 \<le> b2"
  shows "0 \<le> (n / (b1 + n)) powr a - (n / (b2 + n)) powr a"
    and "(n / (b1 + n)) powr a - (n / (b2 + n)) powr a \<le> (b2 - b1) / n"
proof -
  define u1 where "u1 = n / (b1 + n)"
  define u2 where "u2 = n / (b2 + n)"
  define r where "r = (b1 + n) / (b2 + n)"
  have pos: "0 < b1 + n" "0 < b2 + n" using n b by simp_all
  have u: "0 < u2" "u2 \<le> u1" "u1 \<le> 1"
    using n b pos by (simp_all add: u1_def u2_def frac_le)
  have r: "0 < r" "r \<le> 1" using pos b by (simp_all add: r_def)
  have u2r: "u2 = u1 * r" using pos n by (simp add: u1_def u2_def r_def)
  have mono: "u2 powr a \<le> u1 powr a" using u a by (intro powr_mono2) simp_all
  then show "0 \<le> (n / (b1 + n)) powr a - (n / (b2 + n)) powr a"
    by (simp add: u1_def u2_def)
  have u1a: "u1 powr a \<le> 1" using u a by (intro powr_le1) simp_all
  have u1a0: "0 \<le> u1 powr a" by simp
  have ra: "r \<le> r powr a"
    using powr_mono'[of a 1 r] a r by simp
  then have ra1: "0 \<le> 1 - r powr a" "1 - r powr a \<le> 1 - r"
    using r a by (simp_all add: powr_le1)
  have "u1 powr a - u2 powr a = u1 powr a * (1 - r powr a)"
    using u r by (simp add: u2r powr_mult algebra_simps)
  also have "\<dots> \<le> 1 * (1 - r powr a)"
    using u1a ra1(1) by (rule mult_right_mono)
  also have "\<dots> \<le> 1 - r" using ra1(2) by simp
  also have "1 - r = (b2 - b1) / (b2 + n)" using pos by (simp add: r_def field_simps)
  also have "\<dots> \<le> (b2 - b1) / n"
    using b n by (intro divide_left_mono) simp_all
  finally show "(n / (b1 + n)) powr a - (n / (b2 + n)) powr a \<le> (b2 - b1) / n"
    by (simp add: u1_def u2_def)
qed

text \<open>
  On the side of the market where the pool ratio is at most the weighted probability
  (\<open>soundSide\<close>) the exponent is at most 1, and the curve grows at least as fast as the
  amount and at most \<open>1 + y / n\<close> times as fast.
\<close>

lemma sound_lipschitz:
  assumes y: "0 < or_num (YES pool) 0" and n: "0 < or_num (NO pool) 0"
    and p: "0 < p" "p < 1" and side: "soundSide p oc" and a: "0 \<le> a" "a \<le> b"
  shows "b - a \<le> calculateCpmmShares pool p b oc - calculateCpmmShares pool p a oc"
    and "calculateCpmmShares pool p b oc - calculateCpmmShares pool p a oc
         \<le> (1 + (if oc = ''YES'' then or_num (YES pool) 0 / or_num (NO pool) 0
                   else or_num (NO pool) 0 / or_num (YES pool) 0)) * (b - a)"
proof -
  define yy where "yy = or_num (YES pool) 0"
  define nn where "nn = or_num (NO pool) 0"
  have pos: "0 < yy" "0 < nn" using y n by (simp_all add: yy_def nn_def)
  have b: "0 \<le> b" using a by simp
  have both: "b - a \<le> calculateCpmmShares pool p b oc - calculateCpmmShares pool p a oc \<and>
      calculateCpmmShares pool p b oc - calculateCpmmShares pool p a oc
         \<le> (1 + (if oc = ''YES'' then yy / nn else nn / yy)) * (b - a)"
  proof (cases "oc = ''YES''")
    case True
    define e where "e = (1 - p) / p"
    have e: "0 \<le> e" "e \<le> 1" using p side True by (simp_all add: e_def soundSide_def field_simps)
    have d: "calculateCpmmShares pool p b oc - calculateCpmmShares pool p a oc
        = (b - a) + yy * ((nn / (a + nn)) powr e - (nn / (b + nn)) powr e)"
      using True by (simp add: shares_YES_closed[OF y n p] a b yy_def nn_def e_def algebra_simps)
    from ratio_powr_lipschitz[OF pos(2) e a]
    have h: "0 \<le> (nn / (a + nn)) powr e - (nn / (b + nn)) powr e"
      "(nn / (a + nn)) powr e - (nn / (b + nn)) powr e \<le> (b - a) / nn" by simp_all
    have "0 \<le> yy * ((nn / (a + nn)) powr e - (nn / (b + nn)) powr e)"
      using pos h(1) by simp
    moreover have "yy * ((nn / (a + nn)) powr e - (nn / (b + nn)) powr e) \<le> yy * ((b - a) / nn)"
      using pos h(2) by (intro mult_left_mono) simp_all
    ultimately show ?thesis unfolding d using True by (simp add: algebra_simps)
  next
    case False
    define e where "e = p / (1 - p)"
    have e: "0 \<le> e" "e \<le> 1" using p side False by (simp_all add: e_def soundSide_def field_simps)
    have d: "calculateCpmmShares pool p b oc - calculateCpmmShares pool p a oc
        = (b - a) + nn * ((yy / (a + yy)) powr e - (yy / (b + yy)) powr e)"
      using False by (simp add: shares_NO_closed[OF y n p _ False] a b yy_def nn_def e_def algebra_simps)
    from ratio_powr_lipschitz[OF pos(1) e a]
    have h: "0 \<le> (yy / (a + yy)) powr e - (yy / (b + yy)) powr e"
      "(yy / (a + yy)) powr e - (yy / (b + yy)) powr e \<le> (b - a) / yy" by simp_all
    have "0 \<le> nn * ((yy / (a + yy)) powr e - (yy / (b + yy)) powr e)"
      using pos h(1) by simp
    moreover have "nn * ((yy / (a + yy)) powr e - (yy / (b + yy)) powr e) \<le> nn * ((b - a) / yy)"
      using pos h(2) by (intro mult_left_mono) simp_all
    ultimately show ?thesis unfolding d using False by (simp add: algebra_simps)
  qed
  from both show "b - a \<le> calculateCpmmShares pool p b oc - calculateCpmmShares pool p a oc"
    by (rule conjunct1)
  from both[unfolded yy_def nn_def]
  show "calculateCpmmShares pool p b oc - calculateCpmmShares pool p a oc
         \<le> (1 + (if oc = ''YES'' then or_num (YES pool) 0 / or_num (NO pool) 0
                   else or_num (NO pool) 0 / or_num (YES pool) 0)) * (b - a)"
    by (rule conjunct2)
qed

text \<open>
  The search keeps the target between the shares bought at its two ends, so the error of
  the amount returned is below the tolerance or at most the growth of the curve over the
  last interval.
\<close>

lemma bisect_error:
  fixes K :: real
  assumes lip: "\<And>a b. 0 \<le> a \<Longrightarrow> a \<le> b \<Longrightarrow>
      b - a \<le> calculateCpmmShares pool p b oc - calculateCpmmShares pool p a oc \<and>
      calculateCpmmShares pool p b oc - calculateCpmmShares pool p a oc \<le> K * (b - a)"
  shows "k = 50 - i \<Longrightarrow> 0 \<le> lo \<Longrightarrow> lo \<le> hi \<Longrightarrow>
    calculateCpmmShares pool p lo oc \<le> s \<Longrightarrow> s \<le> calculateCpmmShares pool p hi oc \<Longrightarrow>
    i < 50 \<or> mid = lo \<or> mid = hi \<Longrightarrow>
    \<bar>calculateCpmmShares pool p (bisect pool p s oc i lo hi mid) oc - s\<bar> < 1 / 10000 \<or>
    \<bar>calculateCpmmShares pool p (bisect pool p s oc i lo hi mid) oc - s\<bar> \<le> K * (hi - lo) / 2 ^ k"
proof (induction k arbitrary: i lo hi mid)
  case 0
  then have i: "\<not> i < 50" by simp
  then have r: "bisect pool p s oc i lo hi mid = mid" by (simp add: bisect.simps)
  have w: "calculateCpmmShares pool p hi oc - calculateCpmmShares pool p lo oc \<le> K * (hi - lo)"
    using lip[of lo hi] 0 by simp
  from 0 i have "mid = lo \<or> mid = hi" by simp
  then have "\<bar>calculateCpmmShares pool p mid oc - s\<bar> \<le> K * (hi - lo)"
    using w 0(4,5) by auto
  then show ?case using r by simp
next
  case (Suc k)
  then have i: "i < 50" and k: "k = 50 - (i + 1)" by simp_all
  let ?m = "(lo + hi) / 2"
  let ?g = "\<lambda>b. calculateCpmmShares pool p b oc"
  have m: "0 \<le> ?m" "lo \<le> ?m" "?m \<le> hi" using Suc.prems by simp_all
  show ?case
  proof (cases "\<bar>?g ?m - s\<bar> < 0.0001")
    case True
    then have r: "bisect pool p s oc i lo hi mid = ?m"
      using i by (subst bisect.simps) (simp add: Let_def)
    from True have "\<bar>?g (bisect pool p s oc i lo hi mid) - s\<bar> < 1 / 10000"
      unfolding r by simp
    then show ?thesis by (rule disjI1)
  next
    case acc: False
    show ?thesis
    proof (cases "?g ?m < s")
      case True
      have r: "bisect pool p s oc i lo hi mid = bisect pool p s oc (i + 1) ?m hi ?m"
        using i acc True by (subst bisect.simps) (simp add: Let_def)
      have "\<bar>?g (bisect pool p s oc (i + 1) ?m hi ?m) - s\<bar> < 1 / 10000 \<or>
            \<bar>?g (bisect pool p s oc (i + 1) ?m hi ?m) - s\<bar> \<le> K * (hi - ?m) / 2 ^ k"
        using Suc.IH[OF k m(1) m(3) _ Suc.prems(5)] True by simp
      moreover have "K * (hi - ?m) / 2 ^ k = K * (hi - lo) / 2 ^ Suc k"
        by (simp add: field_simps)
      ultimately show ?thesis using r by simp
    next
      case False
      have r: "bisect pool p s oc i lo hi mid = bisect pool p s oc (i + 1) lo ?m ?m"
        using i acc False by (subst bisect.simps) (simp add: Let_def)
      have "\<bar>?g (bisect pool p s oc (i + 1) lo ?m ?m) - s\<bar> < 1 / 10000 \<or>
            \<bar>?g (bisect pool p s oc (i + 1) lo ?m ?m) - s\<bar> \<le> K * (?m - lo) / 2 ^ k"
        using Suc.IH[OF k Suc.prems(2) m(2) Suc.prems(4)] False by simp
      moreover have "K * (?m - lo) / 2 ^ k = K * (hi - lo) / 2 ^ Suc k"
        by (simp add: field_simps)
      ultimately show ?thesis using r by simp
    qed
  qed
qed

lemma shares_half_YES:
  assumes "0 < or_num (YES pool) 0" "0 < or_num (NO pool) 0" "0 \<le> b"
  shows "calculateCpmmShares pool (1/2) b ''YES'' =
         or_num (YES pool) 0 + b - or_num (YES pool) 0 * or_num (NO pool) 0 / (b + or_num (NO pool) 0)"
proof -
  have "0 < b + or_num (NO pool) 0" using assms by simp
  then show ?thesis
    using shares_YES_closed[OF assms(1,2) _ _ assms(3), of "1/2"] assms(2) by simp
qed

lemma sound_bracket:
  assumes y: "0 < or_num (YES pool) 0" and n: "0 < or_num (NO pool) 0"
    and p: "0 < p" "p < 1" and side: "soundSide p oc" and s: "0 < s"
  shows "calculateCpmmShares pool p (initialMinAmount pool s oc) oc \<le> s"
    and "s \<le> calculateCpmmShares pool p s oc"
proof -
  define K where "K = 1 + (if oc = ''YES'' then or_num (YES pool) 0 / or_num (NO pool) 0
                   else or_num (NO pool) 0 / or_num (YES pool) 0)"
  have z: "calculateCpmmShares pool p 0 oc = 0" by (simp add: calculateCpmmShares_def)
  have lb0: "0 \<le> initialMinAmount pool s oc"
    using initialMinAmount_range[of pool s oc] y n s by simp
  have "calculateCpmmShares pool p (initialMinAmount pool s oc) oc \<le> K * initialMinAmount pool s oc"
    using sound_lipschitz(2)[OF y n p side order_refl lb0] by (simp add: z K_def)
  also have "K * initialMinAmount pool s oc = s"
  proof -
    define yy where "yy = or_num (YES pool) 0"
    define nn where "nn = or_num (NO pool) 0"
    have pos: "0 < yy" "0 < nn" "0 < yy + nn" using y n by (simp_all add: yy_def nn_def)
    have e1: "1 + yy / nn = (yy + nn) / nn" using pos by (simp add: field_simps)
    have e2: "1 + nn / yy = (yy + nn) / yy" using pos by (simp add: field_simps)
    have e3: "1 - nn / (yy + nn) = yy / (yy + nn)" using pos by (simp add: field_simps)
    have "(1 + yy / nn) * (s * (nn / (yy + nn))) = s"
      unfolding e1 using pos by simp
    moreover have "(1 + nn / yy) * (s * (1 - nn / (yy + nn))) = s"
      unfolding e2 e3 using pos by simp
    ultimately show ?thesis
      using pos by (simp add: K_def initialMinAmount_def poolProb_def Let_def yy_def[symmetric] nn_def[symmetric])
  qed
  finally show "calculateCpmmShares pool p (initialMinAmount pool s oc) oc \<le> s" .
  show "s \<le> calculateCpmmShares pool p s oc"
    using sound_lipschitz(1)[OF y n p side order_refl, of s] s by (simp add: z)
qed

lemma sound_roundtrip_error:
  assumes y: "0 < or_num (YES pool) 0" and n: "0 < or_num (NO pool) 0"
    and p: "0 < p" "p < 1" and side: "soundSide p oc" and s: "0 < s"
  shows "\<bar>calculateCpmmShares pool p (calculateAmountToBuyShares pool p s oc) oc - s\<bar>
         \<le> max (1 / 10000)
               ((1 + or_num (YES pool) 0 / or_num (NO pool) 0 + or_num (NO pool) 0 / or_num (YES pool) 0)
                * s / 2 ^ 50)"
proof -
  define K where "K = 1 + (if oc = ''YES'' then or_num (YES pool) 0 / or_num (NO pool) 0
                   else or_num (NO pool) 0 / or_num (YES pool) 0)"
  define K' where "K' = 1 + or_num (YES pool) 0 / or_num (NO pool) 0 + or_num (NO pool) 0 / or_num (YES pool) 0"
  define lb where "lb = initialMinAmount pool s oc"
  define r where "r = calculateAmountToBuyShares pool p s oc"
  have lb: "0 \<le> lb" "lb \<le> s"
    using initialMinAmount_range[of pool s oc] y n s by (simp_all add: lb_def)
  have r: "r = bisect pool p s oc 0 lb s 0"
    using s by (simp add: r_def calculateAmountToBuyShares_def lb_def)
  have KK: "0 \<le> K" "K \<le> K'" using y n by (simp_all add: K_def K'_def)
  have "\<bar>calculateCpmmShares pool p r oc - s\<bar> < 1 / 10000 \<or>
        \<bar>calculateCpmmShares pool p r oc - s\<bar> \<le> K * (s - lb) / 2 ^ 50"
    unfolding r
  proof (rule bisect_error[where k = 50 and i = 0])
    fix a b :: real assume "0 \<le> a" "a \<le> b"
    then show "b - a \<le> calculateCpmmShares pool p b oc - calculateCpmmShares pool p a oc \<and>
      calculateCpmmShares pool p b oc - calculateCpmmShares pool p a oc \<le> K * (b - a)"
      using sound_lipschitz[OF y n p side, of a b] by (simp add: K_def)
  next
    show "calculateCpmmShares pool p lb oc \<le> s"
      unfolding lb_def by (rule sound_bracket(1)[OF y n p side s])
    show "s \<le> calculateCpmmShares pool p s oc" by (rule sound_bracket(2)[OF y n p side s])
  qed (use lb in simp_all)
  moreover have "K * (s - lb) / 2 ^ 50 \<le> K' * s / 2 ^ 50"
  proof -
    have "K * (s - lb) \<le> K * s" using KK lb by (intro mult_left_mono) simp_all
    also have "\<dots> \<le> K' * s" using KK s by (intro mult_right_mono) simp_all
    finally show ?thesis by (rule divide_right_mono) simp
  qed
  ultimately have "\<bar>calculateCpmmShares pool p r oc - s\<bar> \<le> max (1 / 10000) (K' * s / 2 ^ 50)"
    unfolding max_def by (auto simp only: split: if_splits)
  then show ?thesis unfolding r_def K'_def .
qed

text \<open>
  Claim C5, as amended. With both reserves positive, a weight strictly between 0 and 1, an
  outcome on the side where the lower bound of the search is sound (YES for a weight of at
  least 1/2, NO for a weight of at most 1/2) and \<open>(1 + yes/no + no/yes) * shares\<close> at most
  \<open>10^12\<close>, buying for the amount that \<open>calculateAmountToBuyShares\<close> returns yields a
  number of shares within \<open>1e-3\<close> of the target.
\<close>

theorem roundtrip_sound_side:
  assumes "0 < or_num (YES pool) 0" and "0 < or_num (NO pool) 0"
    and "0 < p" and "p < 1" and "soundSide p oc" and "0 < s"
    and "(1 + or_num (YES pool) 0 / or_num (NO pool) 0 + or_num (NO pool) 0 / or_num (YES pool) 0) * s
         \<le> 10 ^ 12"
  shows "\<bar>calculateCpmmShares pool p (calculateAmountToBuyShares pool p s oc) oc - s\<bar> < 1 / 1000"
proof -
  define X where "X = (1 + or_num (YES pool) 0 / or_num (NO pool) 0
                         + or_num (NO pool) 0 / or_num (YES pool) 0) * s / 2 ^ 50"
  have "X \<le> 10 ^ 12 / 2 ^ 50"
    unfolding X_def by (rule divide_right_mono[OF assms(7)]) simp
  also have "\<dots> < (1 / 1000 :: real)" by simp
  finally have "max (1 / 10000) X < 1 / 1000" by simp
  moreover have "\<bar>calculateCpmmShares pool p (calculateAmountToBuyShares pool p s oc) oc - s\<bar>
      \<le> max (1 / 10000) X"
    unfolding X_def by (rule sound_roundtrip_error[OF assms(1-6)])
  ultimately show ?thesis by (rule le_less_trans[rotated])
qed

text \<open>The round trip at the pool of 50 and 50 with ten shares.\<close>

theorem roundtrip_sound_side_witness:
  "\<bar>calculateCpmmShares pool_50_50 (1/2)
      (calculateAmountToBuyShares pool_50_50 (1/2) 10 ''YES'') ''YES'' - 10\<bar> < 1 / 1000"
  using roundtrip_sound_side[of pool_50_50 "1/2" "''YES''" 10]
  by (simp add: or_num_def pool_50_50_def soundSide_def)

text \<open>
  Claim C5, as stated, fails at the weight 1/2 for \<open>2^52\<close> shares on the pool of 1 and 1:
  the fifty halvings end at \<open>2^52 - 2\<close>, which buys about \<open>2^52 - 1\<close> shares.
\<close>

theorem roundtrip_large_shares:
  "\<not> \<bar>calculateCpmmShares pool_1_1 (1/2) (calculateAmountToBuyShares pool_1_1 (1/2) (2 ^ 52) ''YES'') ''YES'' - 2 ^ 52\<bar>
      \<le> 1 / 1000"
proof -
  have f: "\<And>b. 0 \<le> b \<Longrightarrow> calculateCpmmShares pool_1_1 (1/2) b ''YES'' = 1 + b - 1 / (b + 1)"
    using shares_half_YES[of pool_1_1] by (simp add: pool_1_1_def or_num_def)
  have "initialMinAmount pool_1_1 (2 ^ 52) ''YES'' = 2 ^ 51"
    by (simp add: initialMinAmount_def poolProb_def pool_1_1_def or_num_def)
  moreover have "bisect pool_1_1 (1/2) (2 ^ 52) ''YES'' 0 (2 ^ 51) (2 ^ 52) 0 = 2 ^ 52 - 2"
    by (simp add: bisect.simps f Let_def)
  ultimately have "calculateAmountToBuyShares pool_1_1 (1/2) (2 ^ 52) ''YES'' = 2 ^ 52 - 2"
    by (simp add: calculateAmountToBuyShares_def)
  then show ?thesis by (simp add: f)
qed

text \<open>
  On either side of the market, an extra amount buys at least as many extra shares:
  \<open>b - a \<le> shares b - shares a\<close>. The search ends either on an accepted midpoint or on an
  end of an interval of width \<open>(hi - lo) / 2^50\<close> whose upper end buys enough shares.
\<close>

lemma ratio_powr_mono:
  fixes n e b1 b2 :: real
  assumes "0 < n" "0 \<le> e" "0 \<le> b1" "b1 \<le> b2"
  shows "(n / (b2 + n)) powr e \<le> (n / (b1 + n)) powr e"
proof -
  have "n / (b2 + n) \<le> n / (b1 + n)" using assms by (simp add: frac_le)
  moreover have "0 \<le> n / (b2 + n)" using assms by simp
  ultimately show ?thesis using assms(2) by (intro powr_mono2) simp_all
qed

lemma shares_degenerate:
  assumes z: "or_num (YES pool) 0 = 0 \<or> or_num (NO pool) 0 = 0"
    and p: "0 < p" "p < 1" and b: "b \<noteq> 0"
  shows "calculateCpmmShares pool p b oc
         = (if oc = ''YES'' then or_num (YES pool) 0 else or_num (NO pool) 0) + b"
proof -
  have k: "Math_pow (or_num (YES pool) 0) p * Math_pow (or_num (NO pool) 0) (1 - p) = 0"
    using z p by (auto simp: Math_pow_def)
  show ?thesis
    using b p by (simp add: calculateCpmmShares_def Let_def k) (simp add: Math_pow_def)
qed

lemma shares_expand:
  assumes y: "0 \<le> or_num (YES pool) 0" and n: "0 \<le> or_num (NO pool) 0"
    and p: "0 < p" "p < 1" and a: "0 \<le> a" "a \<le> b"
  shows "b - a \<le> calculateCpmmShares pool p b oc - calculateCpmmShares pool p a oc"
proof (cases "0 < or_num (YES pool) 0 \<and> 0 < or_num (NO pool) 0")
  case True
  then have yp: "0 < or_num (YES pool) 0" and np: "0 < or_num (NO pool) 0" by simp_all
  have b: "0 \<le> b" using a by simp
  show ?thesis
  proof (cases "oc = ''YES''")
    case yes: True
    have e: "0 \<le> (1 - p) / p" using p by simp
    have "0 \<le> or_num (YES pool) 0 *
        ((or_num (NO pool) 0 / (a + or_num (NO pool) 0)) powr ((1 - p) / p)
         - (or_num (NO pool) 0 / (b + or_num (NO pool) 0)) powr ((1 - p) / p))"
      using ratio_powr_mono[OF np e a] yp by simp
    then show ?thesis
      using yes by (simp add: shares_YES_closed[OF yp np p] a b algebra_simps)
  next
    case no: False
    have e: "0 \<le> p / (1 - p)" using p by simp
    have "0 \<le> or_num (NO pool) 0 *
        ((or_num (YES pool) 0 / (a + or_num (YES pool) 0)) powr (p / (1 - p))
         - (or_num (YES pool) 0 / (b + or_num (YES pool) 0)) powr (p / (1 - p)))"
      using ratio_powr_mono[OF yp e a] np by simp
    then show ?thesis
      by (simp add: shares_NO_closed[OF yp np p _ no] a b algebra_simps)
  qed
next
  case False
  then have z: "or_num (YES pool) 0 = 0 \<or> or_num (NO pool) 0 = 0" using y n by auto
  show ?thesis
  proof (cases "b = 0")
    case True
    then show ?thesis using a by simp
  next
    case bn: False
    show ?thesis
    proof (cases "a = 0")
      case True
      then show ?thesis
        using y n by (simp add: shares_degenerate[OF z p bn]) (simp add: calculateCpmmShares_def)
    next
      case an: False
      show ?thesis by (simp add: shares_degenerate[OF z p bn] shares_degenerate[OF z p an])
    qed
  qed
qed

lemma bisect_final:
  "k = 50 - i \<Longrightarrow> lo \<le> hi \<Longrightarrow> s \<le> calculateCpmmShares pool p hi oc \<Longrightarrow>
   i < 50 \<or> mid = lo \<or> mid = hi \<Longrightarrow>
   \<bar>calculateCpmmShares pool p (bisect pool p s oc i lo hi mid) oc - s\<bar> < 1 / 10000
   \<or> (\<exists>lo' hi'. lo \<le> lo' \<and> lo' \<le> hi' \<and> hi' - lo' = (hi - lo) / 2 ^ k
         \<and> (bisect pool p s oc i lo hi mid = lo' \<or> bisect pool p s oc i lo hi mid = hi')
         \<and> s \<le> calculateCpmmShares pool p hi' oc
         \<and> (calculateCpmmShares pool p lo' oc < s \<or> lo' = lo))"
proof (induction k arbitrary: i lo hi mid)
  case 0
  then have "\<not> i < 50" by simp
  then have r: "bisect pool p s oc i lo hi mid = mid" by (simp add: bisect.simps)
  from 0 \<open>\<not> i < 50\<close> have "mid = lo \<or> mid = hi" by simp
  then have "lo \<le> lo \<and> lo \<le> hi \<and> hi - lo = (hi - lo) / 2 ^ 0
         \<and> (bisect pool p s oc i lo hi mid = lo \<or> bisect pool p s oc i lo hi mid = hi)
         \<and> s \<le> calculateCpmmShares pool p hi oc
         \<and> (calculateCpmmShares pool p lo oc < s \<or> lo = lo)"
    using 0 r by simp
  then show ?case by blast
next
  case (Suc k)
  then have i: "i < 50" and k: "k = 50 - (i + 1)" by simp_all
  let ?m = "(lo + hi) / 2"
  let ?g = "\<lambda>b. calculateCpmmShares pool p b oc"
  have m: "lo \<le> ?m" "?m \<le> hi" using Suc.prems by simp_all
  show ?case
  proof (cases "\<bar>?g ?m - s\<bar> < 0.0001")
    case True
    then have r: "bisect pool p s oc i lo hi mid = ?m"
      using i by (subst bisect.simps) (simp add: Let_def)
    from True have "\<bar>?g (bisect pool p s oc i lo hi mid) - s\<bar> < 1 / 10000"
      unfolding r by simp
    then show ?thesis by (rule disjI1)
  next
    case acc: False
    show ?thesis
    proof (cases "?g ?m < s")
      case True
      have r: "bisect pool p s oc i lo hi mid = bisect pool p s oc (i + 1) ?m hi ?m"
        using i acc True by (subst bisect.simps) (simp add: Let_def)
      have w: "(hi - ?m) / 2 ^ k = (hi - lo) / 2 ^ Suc k" by (simp add: field_simps)
      from Suc.IH[OF k m(2) Suc.prems(3) disjI2[OF disjI1[OF refl]]]
      consider (acc') "\<bar>?g (bisect pool p s oc (i + 1) ?m hi ?m) - s\<bar> < 1 / 10000"
        | (fin) lo' hi' where "?m \<le> lo'" "lo' \<le> hi'" "hi' - lo' = (hi - ?m) / 2 ^ k"
            "bisect pool p s oc (i + 1) ?m hi ?m = lo' \<or> bisect pool p s oc (i + 1) ?m hi ?m = hi'"
            "s \<le> ?g hi'" "?g lo' < s \<or> lo' = ?m"
        by blast
      then show ?thesis
      proof cases
        case acc'
        then show ?thesis unfolding r by (rule disjI1)
      next
        case fin
        have a: "lo \<le> lo'" using m(1) fin(1) by simp
        have b: "hi' - lo' = (hi - lo) / 2 ^ Suc k" using fin(3) w by simp
        have c: "?g lo' < s \<or> lo' = lo"
        proof (rule disjI1)
          from fin(6) show "?g lo' < s"
          proof
            assume "lo' = ?m"
            with True show ?thesis by (simp only:)
          qed
        qed
        show ?thesis unfolding r using a fin(2) b fin(4) fin(5) c by blast
      qed
    next
      case False
      have r: "bisect pool p s oc i lo hi mid = bisect pool p s oc (i + 1) lo ?m ?m"
        using i acc False by (subst bisect.simps) (simp add: Let_def)
      have w: "(?m - lo) / 2 ^ k = (hi - lo) / 2 ^ Suc k" by (simp add: field_simps)
      have gm: "s \<le> ?g ?m" using False by simp
      from Suc.IH[OF k m(1) gm disjI2[OF disjI2[OF refl]]]
      consider (acc') "\<bar>?g (bisect pool p s oc (i + 1) lo ?m ?m) - s\<bar> < 1 / 10000"
        | (fin) lo' hi' where "lo \<le> lo'" "lo' \<le> hi'" "hi' - lo' = (?m - lo) / 2 ^ k"
            "bisect pool p s oc (i + 1) lo ?m ?m = lo' \<or> bisect pool p s oc (i + 1) lo ?m ?m = hi'"
            "s \<le> ?g hi'" "?g lo' < s \<or> lo' = lo"
        by blast
      then show ?thesis
      proof cases
        case acc'
        then show ?thesis unfolding r by (rule disjI1)
      next
        case fin
        have b: "hi' - lo' = (hi - lo) / 2 ^ Suc k" using fin(3) w by simp
        show ?thesis unfolding r using fin(1) fin(2) b fin(4) fin(5) fin(6) by blast
      qed
    qed
  qed
qed

lemma initialMinAmount_mono:
  assumes "0 \<le> or_num (YES pool) 0" "0 \<le> or_num (NO pool) 0" "s1 \<le> s2"
  shows "initialMinAmount pool s1 oc \<le> initialMinAmount pool s2 oc"
proof -
  from poolProb_range[OF assms(1,2)] have q: "0 \<le> poolProb pool" "0 \<le> 1 - poolProb pool"
    by simp_all
  show ?thesis
    using mult_right_mono[OF assms(3) q(1)] mult_right_mono[OF assms(3) q(2)]
    by (simp add: initialMinAmount_def)
qed

lemma cost_ends:
  assumes y: "0 \<le> or_num (YES pool) 0" and n: "0 \<le> or_num (NO pool) 0"
    and p: "0 < p" "p < 1" and s: "0 < s"
  shows "\<bar>calculateCpmmShares pool p (calculateAmountToBuyShares pool p s oc) oc - s\<bar> < 1 / 10000
   \<or> (\<exists>lo' hi'. initialMinAmount pool s oc \<le> lo' \<and> lo' \<le> hi'
         \<and> hi' - lo' = (s - initialMinAmount pool s oc) / 2 ^ 50
         \<and> (calculateAmountToBuyShares pool p s oc = lo' \<or> calculateAmountToBuyShares pool p s oc = hi')
         \<and> s \<le> calculateCpmmShares pool p hi' oc
         \<and> (calculateCpmmShares pool p lo' oc < s \<or> lo' = initialMinAmount pool s oc))"
proof -
  have r: "calculateAmountToBuyShares pool p s oc
      = bisect pool p s oc 0 (initialMinAmount pool s oc) s 0"
    using s by (simp add: calculateAmountToBuyShares_def)
  have lb: "initialMinAmount pool s oc \<le> s"
    using initialMinAmount_range[OF y n, of s oc] s by simp
  have "s - 0 \<le> calculateCpmmShares pool p s oc - calculateCpmmShares pool p 0 oc"
    using s by (intro shares_expand[OF y n p]) simp_all
  then have top: "s \<le> calculateCpmmShares pool p s oc"
    by (simp add: calculateCpmmShares_def)
  show ?thesis
    unfolding r by (rule bisect_final[where k = 50 and i = 0, OF _ lb top]) simp_all
qed

lemma cost_upper:
  assumes y: "0 \<le> or_num (YES pool) 0" and n: "0 \<le> or_num (NO pool) 0"
    and p: "0 < p" "p < 1" and s: "0 < s" "s \<le> 10 ^ 11"
  shows "\<exists>l d t. 0 \<le> l \<and> calculateAmountToBuyShares pool p s oc \<le> l + d \<and> 0 \<le> d \<and> 0 \<le> t
      \<and> d + t \<le> 1 / 10000
      \<and> (calculateCpmmShares pool p l oc \<le> s + t \<or> l = initialMinAmount pool s oc)"
proof -
  define r where "r = calculateAmountToBuyShares pool p s oc"
  define lb where "lb = initialMinAmount pool s oc"
  have lb: "0 \<le> lb" "lb \<le> s"
    using initialMinAmount_range[OF y n, of s oc] s by (simp_all add: lb_def)
  define w where "w = (s - lb) / 2 ^ 50"
  have "w \<le> 10 ^ 11 / 2 ^ 50"
    unfolding w_def using lb s by (intro divide_right_mono) simp_all
  also have "\<dots> \<le> (1 / 10000 :: real)" by simp
  finally have w: "w \<le> 1 / 10000" .
  have w0: "0 \<le> w" unfolding w_def using lb by simp
  from cost_ends[OF y n p s(1), of oc]
  consider (acc) "\<bar>calculateCpmmShares pool p r oc - s\<bar> < 1 / 10000"
    | (fin) lo' hi' where "lb \<le> lo'" "lo' \<le> hi'" "hi' - lo' = w"
        "r = lo' \<or> r = hi'" "s \<le> calculateCpmmShares pool p hi' oc"
        "calculateCpmmShares pool p lo' oc < s \<or> lo' = lb"
    unfolding r_def lb_def w_def by blast
  then have "\<exists>l d t. 0 \<le> l \<and> r \<le> l + d \<and> 0 \<le> d \<and> 0 \<le> t \<and> d + t \<le> 1 / 10000
      \<and> (calculateCpmmShares pool p l oc \<le> s + t \<or> l = lb)"
  proof cases
    case acc
    have "0 \<le> r" unfolding r_def
      using amount_range(1)[OF y n s(1), of oc p] lb(1) by (simp add: lb_def)
    moreover have "calculateCpmmShares pool p r oc \<le> s + 1 / 10000" using acc by linarith
    ultimately show ?thesis
      by (intro exI[of _ r] exI[of _ 0] exI[of _ "1 / 10000"]) simp
  next
    case fin
    have "0 \<le> lo'" using fin(1) lb(1) by simp
    moreover have "r \<le> lo' + w" using fin(2,3,4) by auto
    moreover have "calculateCpmmShares pool p lo' oc \<le> s + 0 \<or> lo' = lb" using fin(6) by auto
    ultimately show ?thesis
      using w w0 by (intro exI[of _ lo'] exI[of _ w] exI[of _ 0]) simp
  qed
  then show ?thesis unfolding r_def lb_def .
qed

lemma cost_lower:
  assumes y: "0 \<le> or_num (YES pool) 0" and n: "0 \<le> or_num (NO pool) 0"
    and p: "0 < p" "p < 1" and s: "0 < s" "s \<le> 10 ^ 11"
  shows "\<exists>h d t. calculateAmountToBuyShares pool p s oc \<le> h
      \<and> h \<le> calculateAmountToBuyShares pool p s oc + d \<and> 0 \<le> d \<and> 0 \<le> t
      \<and> d + t \<le> 1 / 10000 \<and> s - t \<le> calculateCpmmShares pool p h oc"
proof -
  define r where "r = calculateAmountToBuyShares pool p s oc"
  define lb where "lb = initialMinAmount pool s oc"
  have lb: "0 \<le> lb" "lb \<le> s"
    using initialMinAmount_range[OF y n, of s oc] s by (simp_all add: lb_def)
  define w where "w = (s - lb) / 2 ^ 50"
  have "w \<le> 10 ^ 11 / 2 ^ 50"
    unfolding w_def using lb s by (intro divide_right_mono) simp_all
  also have "\<dots> \<le> (1 / 10000 :: real)" by simp
  finally have w: "w \<le> 1 / 10000" .
  have w0: "0 \<le> w" unfolding w_def using lb by simp
  from cost_ends[OF y n p s(1), of oc]
  consider (acc) "\<bar>calculateCpmmShares pool p r oc - s\<bar> < 1 / 10000"
    | (fin) lo' hi' where "lb \<le> lo'" "lo' \<le> hi'" "hi' - lo' = w"
        "r = lo' \<or> r = hi'" "s \<le> calculateCpmmShares pool p hi' oc"
        "calculateCpmmShares pool p lo' oc < s \<or> lo' = lb"
    unfolding r_def lb_def w_def by blast
  then have "\<exists>h d t. r \<le> h \<and> h \<le> r + d \<and> 0 \<le> d \<and> 0 \<le> t
      \<and> d + t \<le> 1 / 10000 \<and> s - t \<le> calculateCpmmShares pool p h oc"
  proof cases
    case acc
    have "s - 1 / 10000 \<le> calculateCpmmShares pool p r oc" using acc by linarith
    then show ?thesis
      by (intro exI[of _ r] exI[of _ 0] exI[of _ "1 / 10000"]) simp
  next
    case fin
    have "r \<le> hi'" "hi' \<le> r + w" using fin(2,3,4) by auto
    then show ?thesis
      using w w0 fin(5) by (intro exI[of _ hi'] exI[of _ w] exI[of _ 0]) simp
  qed
  then show ?thesis unfolding r_def .
qed

text \<open>
  Claim C4, as amended. The cost of a non-positive number of shares is exactly 0. For every
  pool with reserves that are not negative, every weight strictly between 0 and 1, either
  outcome and \<open>0 \<le> s1 \<le> s2 \<le> 10^11\<close>, the cost is monotone up to twice the acceptance
  tolerance: \<open>cost s1 \<le> cost s2 + 2e-4\<close>.
\<close>

theorem cost_zero_and_nearly_monotone:
  "(s \<le> 0 \<longrightarrow> calculateAmountToBuyShares pool p s oc = 0)
   \<and> (0 \<le> or_num (YES pool) 0 \<and> 0 \<le> or_num (NO pool) 0 \<and> 0 < p \<and> p < 1
        \<and> 0 \<le> s1 \<and> s1 \<le> s2 \<and> s2 \<le> 10 ^ 11
      \<longrightarrow> calculateAmountToBuyShares pool p s1 oc
            \<le> calculateAmountToBuyShares pool p s2 oc + 2 / 10000)"
proof (intro conjI impI)
  assume "s \<le> 0"
  then show "calculateAmountToBuyShares pool p s oc = 0"
    by (simp add: calculateAmountToBuyShares_def)
next
  assume a: "0 \<le> or_num (YES pool) 0 \<and> 0 \<le> or_num (NO pool) 0 \<and> 0 < p \<and> p < 1
        \<and> 0 \<le> s1 \<and> s1 \<le> s2 \<and> s2 \<le> 10 ^ 11"
  define r1 where "r1 = calculateAmountToBuyShares pool p s1 oc"
  define r2 where "r2 = calculateAmountToBuyShares pool p s2 oc"
  from a have y: "0 \<le> or_num (YES pool) 0" and n: "0 \<le> or_num (NO pool) 0"
    and p: "0 < p" "p < 1" and s1: "0 \<le> s1" and s12: "s1 \<le> s2" and s2b: "s2 \<le> 10 ^ 11"
    by simp_all
  have lo2: "\<And>s. 0 < s \<Longrightarrow> initialMinAmount pool s oc \<le> calculateAmountToBuyShares pool p s oc"
    by (rule amount_range(1)[OF y n])
  have nonneg: "\<And>s. 0 \<le> calculateAmountToBuyShares pool p s oc"
  proof -
    fix s :: real
    show "0 \<le> calculateAmountToBuyShares pool p s oc"
    proof (cases "0 < s")
      case False
      then show ?thesis by (simp add: calculateAmountToBuyShares_def)
    next
      case True
      have "0 \<le> initialMinAmount pool s oc"
        using initialMinAmount_range[OF y n, of s oc] True by simp
      also have "\<dots> \<le> calculateAmountToBuyShares pool p s oc" by (rule lo2[OF True])
      finally show ?thesis .
    qed
  qed
  show "calculateAmountToBuyShares pool p s1 oc
            \<le> calculateAmountToBuyShares pool p s2 oc + 2 / 10000"
  proof (cases "0 < s1")
    case False
    then have "calculateAmountToBuyShares pool p s1 oc = 0"
      by (simp add: calculateAmountToBuyShares_def)
    then show ?thesis using nonneg[of s2] by simp
  next
    case True
    then have s2: "0 < s2" using s12 by simp
    have s1b: "s1 \<le> 10 ^ 11" using s12 s2b by simp
    from cost_upper[OF y n p True s1b, of oc] obtain l d1 t1 where
      l: "0 \<le> l" "r1 \<le> l + d1" "0 \<le> d1" "0 \<le> t1" "d1 + t1 \<le> 1 / 10000"
        "calculateCpmmShares pool p l oc \<le> s1 + t1 \<or> l = initialMinAmount pool s1 oc"
      unfolding r1_def by blast
    from cost_lower[OF y n p s2 s2b, of oc] obtain h d2 t2 where
      h: "r2 \<le> h" "h \<le> r2 + d2" "0 \<le> d2" "0 \<le> t2" "d2 + t2 \<le> 1 / 10000"
        "s2 - t2 \<le> calculateCpmmShares pool p h oc"
      unfolding r2_def by blast
    have r20: "0 \<le> r2" unfolding r2_def by (rule nonneg)
    have "r1 \<le> r2 + 2 / 10000"
    proof (cases "l \<le> h")
      case True
      then show ?thesis using l h by linarith
    next
      case False
      then have hl: "h \<le> l" by simp
      from l(6) show ?thesis
      proof
        assume "l = initialMinAmount pool s1 oc"
        also have "\<dots> \<le> initialMinAmount pool s2 oc" by (rule initialMinAmount_mono[OF y n s12])
        also have "\<dots> \<le> r2" unfolding r2_def by (rule lo2[OF s2])
        finally show ?thesis using l h by linarith
      next
        assume gl: "calculateCpmmShares pool p l oc \<le> s1 + t1"
        have h0: "0 \<le> h" using r20 h(1) by simp
        from shares_expand[OF y n p h0 hl]
        have "l - h \<le> calculateCpmmShares pool p l oc - calculateCpmmShares pool p h oc" .
        also have "\<dots> \<le> (s1 + t1) - (s2 - t2)" using gl h(6) by linarith
        also have "\<dots> \<le> t1 + t2" using s12 by simp
        finally show ?thesis using l h by linarith
      qed
    qed
    then show ?thesis by (simp add: r1_def r2_def)
  qed
qed

text \<open>Zero, five and ten shares at the pool of 50 and 50.\<close>

theorem cost_zero_and_nearly_monotone_witness:
  "calculateAmountToBuyShares pool_50_50 (1/2) 0 ''YES'' = 0
   \<and> calculateAmountToBuyShares pool_50_50 (1/2) 5 ''YES''
       \<le> calculateAmountToBuyShares pool_50_50 (1/2) 10 ''YES'' + 2 / 10000"
  using cost_zero_and_nearly_monotone[of 0 pool_50_50 "1/2" "''YES''" 5 10]
  by (simp add: or_num_def pool_50_50_def)

text \<open>
  Claim C4, as stated, fails: on the pool of 1 and 99 at the weight 1/2 the first midpoint
  is accepted for 0.0198 shares, and only the second, lower one for 0.01984 shares.
\<close>

theorem cost_not_monotone:
  "(0::real) \<le> 198 / 10000 \<and> (198 / 10000 :: real) \<le> 1984 / 100000
   \<and> \<not> calculateAmountToBuyShares pool_1_99 (1/2) (198 / 10000) ''YES''
        \<le> calculateAmountToBuyShares pool_1_99 (1/2) (1984 / 100000) ''YES''"
proof -
  have f: "\<And>b. 0 \<le> b \<Longrightarrow> calculateCpmmShares pool_1_99 (1/2) b ''YES'' = 1 + b - 99 / (b + 99)"
    using shares_half_YES[of pool_1_99] by (simp add: pool_1_99_def or_num_def)
  have m: "\<And>s. initialMinAmount pool_1_99 s ''YES'' = s * (99 / 100)"
    by (simp add: initialMinAmount_def poolProb_def pool_1_99_def or_num_def)
  have c1: "calculateAmountToBuyShares pool_1_99 (1/2) (198 / 10000) ''YES'' = 19701 / 1000000"
    by (simp add: calculateAmountToBuyShares_def m bisect.simps f Let_def)
  have c2: "calculateAmountToBuyShares pool_1_99 (1/2) (1984 / 100000) ''YES'' = 19691200 / 1000000000"
    by (simp add: calculateAmountToBuyShares_def m bisect.simps f Let_def)
  show ?thesis unfolding c1 c2 by simp
qed

section \<open>The return estimator, the ranking and the clock\<close>

text \<open>
  Claim C6, as amended. The estimator yields \<open>None\<close> exactly when the close time is absent
  or is the number 0, or the days until close are at most 0, or the sale value is at most
  0; in every other case it yields \<open>(shares - saleValue) / saleValue * (365 / max days 1)\<close>.
\<close>

theorem calculateReturnIfCorrect_cases:
  "calculateReturnIfCorrect sv s None now = None \<and>
   calculateReturnIfCorrect (Num v) s (Some ct) now =
     (if ct = 0 \<or> (ct - now) / 86400000 \<le> 0 \<or> v \<le> 0 then None
      else Some (Num ((s - v) / v * (365 / max ((ct - now) / 86400000) 1))))"
  by (simp add: calculateReturnIfCorrect_def Let_def)

text \<open>
  Claim C6, as stated, fails for the close time 0 read one day before the epoch: the close
  time is present, one day remains and the sale value is positive, but the result is
  \<open>None\<close>.
\<close>

theorem calculateReturnIfCorrect_zero_closeTime:
  "calculateReturnIfCorrect (Num 1) 2 (Some 0) (- 86400000) = None \<and>
   \<not> (Some (0::real) = None \<or> (0 - (- 86400000)) / (1000 * 60 * 60 * 24) \<le> (0::real) \<or> (1::real) \<le> 0)"
  by (simp add: calculateReturnIfCorrect_def)

lemma belowRate_iff:
  "belowRate q \<longleftrightarrow> (\<exists>r. returnIfCorrect q = Some (Num r) \<and> r < MARGIN_RATE_ANNUAL)"
  by (auto simp: belowRate_def split: option.splits number.splits)

lemma atOrAboveRate_iff:
  "atOrAboveRate q \<longleftrightarrow> (\<exists>r. returnIfCorrect q = Some (Num r) \<and> MARGIN_RATE_ANNUAL \<le> r)"
  by (auto simp: atOrAboveRate_def split: option.splits number.splits)

lemma belowRate_hasReturn: "belowRate q \<Longrightarrow> hasReturn q"
  by (auto simp: belowRate_iff hasReturn_def)

lemma atOrAboveRate_hasReturn: "atOrAboveRate q \<Longrightarrow> hasReturn q"
  by (auto simp: atOrAboveRate_iff hasReturn_def)

lemma numeric_returns:
  "\<forall>q \<in> set xs. belowRate q \<or> atOrAboveRate q \<Longrightarrow>
   map returnIfCorrect xs = map (\<lambda>r. Some (Num r)) (map returnOr0 xs)"
  by (induction xs) (auto simp: belowRate_iff atOrAboveRate_iff returnOr0_def)

lemma sorted_rev_neg:
  fixes f :: "'a \<Rightarrow> real"
  shows "sorted (map (\<lambda>q. - f q) xs) \<Longrightarrow> sorted (rev (map f xs))"
  by (induction xs) (auto simp: sorted_append)

text \<open>
  Claim C9. \<open>getPositionsBelowMarginRate\<close> returns exactly the records with a return
  below the margin rate, in ascending order of the return. \<open>getAllPositionsSorted\<close>
  returns the below-margin records in ascending order followed by the records at or above
  the margin rate in descending order, and no record with an absent return.
\<close>

theorem ranking_orders:
  "(\<exists>rs. sorted rs \<and> map returnIfCorrect (getPositionsBelowMarginRate ps) = map (\<lambda>r. Some (Num r)) rs)
   \<and> mset (getPositionsBelowMarginRate ps)
       = filter_mset (\<lambda>q. \<exists>r. returnIfCorrect q = Some (Num r) \<and> r < MARGIN_RATE_ANNUAL) (mset ps)
   \<and> (\<exists>below above rb ra.
         getAllPositionsSorted ps = below @ above
         \<and> mset below
             = filter_mset (\<lambda>q. \<exists>r. returnIfCorrect q = Some (Num r) \<and> r < MARGIN_RATE_ANNUAL) (mset ps)
         \<and> mset above
             = filter_mset (\<lambda>q. \<exists>r. returnIfCorrect q = Some (Num r) \<and> MARGIN_RATE_ANNUAL \<le> r) (mset ps)
         \<and> map returnIfCorrect below = map (\<lambda>r. Some (Num r)) rb \<and> sorted rb
         \<and> map returnIfCorrect above = map (\<lambda>r. Some (Num r)) ra \<and> sorted (rev ra))
   \<and> filter (\<lambda>q. returnIfCorrect q = None) (getAllPositionsSorted ps) = []"
proof (intro conjI)
  let ?B = "filter (\<lambda>q. hasReturn q \<and> belowRate q) ps"
  have fb: "filter (\<lambda>q. hasReturn q \<and> belowRate q) ps = filter belowRate ps"
    by (rule filter_cong) (auto dest: belowRate_hasReturn)
  have fb2: "filter belowRate (filter hasReturn ps) = filter belowRate ps"
    by (simp, rule filter_cong) (auto dest: belowRate_hasReturn)
  have fa2: "filter atOrAboveRate (filter hasReturn ps) = filter atOrAboveRate ps"
    by (simp, rule filter_cong) (auto dest: atOrAboveRate_hasReturn)
  let ?below = "sort_key returnOr0 (filter belowRate ps)"
  let ?above = "sort_key (\<lambda>q. - returnOr0 q) (filter atOrAboveRate ps)"
  have nb: "map returnIfCorrect ?below = map (\<lambda>r. Some (Num r)) (map returnOr0 ?below)"
    by (rule numeric_returns) simp
  have na: "map returnIfCorrect ?above = map (\<lambda>r. Some (Num r)) (map returnOr0 ?above)"
    by (rule numeric_returns) simp
  have sb: "sorted (map returnOr0 ?below)" by (rule sorted_sort_key)
  have sa: "sorted (rev (map returnOr0 ?above))"
    by (rule sorted_rev_neg) (rule sorted_sort_key)
  have mb: "mset ?below
      = filter_mset (\<lambda>q. \<exists>r. returnIfCorrect q = Some (Num r) \<and> r < MARGIN_RATE_ANNUAL) (mset ps)"
    by (simp add: belowRate_iff[abs_def])
  have ma: "mset ?above
      = filter_mset (\<lambda>q. \<exists>r. returnIfCorrect q = Some (Num r) \<and> MARGIN_RATE_ANNUAL \<le> r) (mset ps)"
    by (simp add: atOrAboveRate_iff[abs_def])
  have g1: "getPositionsBelowMarginRate ps = ?below"
    by (simp add: getPositionsBelowMarginRate_def fb)
  have g2: "getAllPositionsSorted ps = ?below @ ?above"
    by (simp only: getAllPositionsSorted_def Let_def fb2 fa2)
  show "\<exists>rs. sorted rs \<and> map returnIfCorrect (getPositionsBelowMarginRate ps) = map (\<lambda>r. Some (Num r)) rs"
    unfolding g1 using sb nb by blast
  show "mset (getPositionsBelowMarginRate ps)
       = filter_mset (\<lambda>q. \<exists>r. returnIfCorrect q = Some (Num r) \<and> r < MARGIN_RATE_ANNUAL) (mset ps)"
    unfolding g1 by (rule mb)
  show "\<exists>below above rb ra.
         getAllPositionsSorted ps = below @ above
         \<and> mset below
             = filter_mset (\<lambda>q. \<exists>r. returnIfCorrect q = Some (Num r) \<and> r < MARGIN_RATE_ANNUAL) (mset ps)
         \<and> mset above
             = filter_mset (\<lambda>q. \<exists>r. returnIfCorrect q = Some (Num r) \<and> MARGIN_RATE_ANNUAL \<le> r) (mset ps)
         \<and> map returnIfCorrect below = map (\<lambda>r. Some (Num r)) rb \<and> sorted rb
         \<and> map returnIfCorrect above = map (\<lambda>r. Some (Num r)) ra \<and> sorted (rev ra)"
    using g2 mb ma nb sb na sa by blast
  have "\<And>q. q \<in> set (getAllPositionsSorted ps) \<Longrightarrow> returnIfCorrect q \<noteq> None"
    unfolding g2 by (auto simp: belowRate_iff atOrAboveRate_iff)
  then show "filter (\<lambda>q. returnIfCorrect q = None) (getAllPositionsSorted ps) = []"
    by (simp add: filter_empty_conv)
qed

lemma map_map_filter:
  "map g (List.map_filter f xs) = List.map_filter (\<lambda>x. map_option g (f x)) xs"
  by (induction xs) (auto simp: map_filter_simps split: option.splits)

lemma processMetrics_clock:
  "map_option (\<lambda>q. q\<lparr>daysUntilClose := None, returnIfCorrect := None\<rparr>) (processMetrics t1 cid c mech m)
   = map_option (\<lambda>q. q\<lparr>daysUntilClose := None, returnIfCorrect := None\<rparr>) (processMetrics t2 cid c mech m)"
  by (simp add: processMetrics_def Let_def split: option.splits prod.splits)

lemma processEntry_clock:
  "map (\<lambda>q. q\<lparr>daysUntilClose := None, returnIfCorrect := None\<rparr>) (processEntry t1 lk e)
   = map (\<lambda>q. q\<lparr>daysUntilClose := None, returnIfCorrect := None\<rparr>) (processEntry t2 lk e)"
  by (simp add: processEntry_def Let_def map_map_filter processMetrics_clock[of t1 _ _ _ _ t2]
      split: option.splits)

text \<open>
  Claim C10, as amended. The output is a function of the fetched data and of the clock
  reading; which holdings are emitted, their order and every field other than
  \<open>daysUntilClose\<close> and \<open>returnIfCorrect\<close> do not depend on the clock.
\<close>

theorem processPositions_clock_fields:
  "map (\<lambda>q. q\<lparr>daysUntilClose := None, returnIfCorrect := None\<rparr>) (processPositions t1 raw)
   = map (\<lambda>q. q\<lparr>daysUntilClose := None, returnIfCorrect := None\<rparr>) (processPositions t2 raw)"
  by (simp add: processPositions_def Let_def map_concat comp_def processEntry_clock[of t1 _ _ t2])

text \<open>
  Claim C10, as stated, fails: the same fetched data read at two clock values one day
  apart give different outputs.
\<close>

theorem processPositions_reads_clock:
  "processPositions 0 clockRaw \<noteq> processPositions 86400000 clockRaw"
proof -
  have "map daysUntilClose (processPositions 0 clockRaw) = [Some 2]"
    by (simp add: processPositions_def processEntry_def processMetrics_def clockRaw_def
        clockContract_def contractsLookup_def Let_def supported_def or_str_def or_num_def
        resolveMarket_def fallbackProbability_def map_filter_simps emptyPool_def gt0_def
        truthy_num_def calculateSimpleSaleValue_def calculateReturnIfCorrect_def)
  moreover have "map daysUntilClose (processPositions 86400000 clockRaw) = [Some 1]"
    by (simp add: processPositions_def processEntry_def processMetrics_def clockRaw_def
        clockContract_def contractsLookup_def Let_def supported_def or_str_def or_num_def
        resolveMarket_def fallbackProbability_def map_filter_simps emptyPool_def gt0_def
        truthy_num_def calculateSimpleSaleValue_def calculateReturnIfCorrect_def)
  ultimately show ?thesis by auto
qed

section \<open>The valuations that the pipeline emits\<close>

lemma contractsLookup_fold_id:
  "fold (\<lambda>c m. m(c_id c \<mapsto> c)) cs m0 cid = Some c \<Longrightarrow> c_id c = cid \<or> m0 cid = Some c"
proof (induction cs arbitrary: m0)
  case Nil
  then show ?case by simp
next
  case (Cons a cs)
  from Cons.prems have "fold (\<lambda>c m. m(c_id c \<mapsto> c)) cs (m0(c_id a \<mapsto> a)) cid = Some c"
    by (simp only: fold_simps comp_apply)
  from Cons.IH[OF this] show ?case by (auto split: if_splits)
qed

lemma contractsLookup_id: "contractsLookup cs cid = Some c \<Longrightarrow> c_id c = cid"
  using contractsLookup_fold_id[of cs Map.empty cid c] by (simp add: contractsLookup_def)

lemma processEntry_member:
  assumes "q \<in> set (processEntry t lk e)"
  shows "\<exists>c m. lk (fst e) = Some c \<and> \<not> c_isResolved c \<and> supported (or_str (c_mechanism c) [])
           \<and> m \<in> set (snd e)
           \<and> processMetrics t (fst e) c (or_str (c_mechanism c) []) m = Some q"
proof (cases "lk (fst e)")
  case None
  with assms show ?thesis by (simp add: processEntry_def)
next
  case (Some c)
  with assms have g: "\<not> c_isResolved c" "supported (or_str (c_mechanism c) [])"
    and q: "q \<in> set (List.map_filter (processMetrics t (fst e) c (or_str (c_mechanism c) [])) (snd e))"
    by (auto simp: processEntry_def Let_def split: if_splits)
  from q obtain m where "m \<in> set (snd e)"
    "processMetrics t (fst e) c (or_str (c_mechanism c) []) m = Some q"
    by (auto simp: map_filter_def)
  with Some g show ?thesis by blast
qed

lemma processPositions_source:
  assumes "q \<in> set (processPositions t raw)"
  shows "\<exists>c e m. e \<in> set (case r_metricsByContract raw of None \<Rightarrow> [] | Some ms \<Rightarrow> ms)
           \<and> m \<in> set (snd e)
           \<and> contractsLookup (case r_contracts raw of None \<Rightarrow> [] | Some cs \<Rightarrow> cs) (fst e) = Some c
           \<and> \<not> c_isResolved c \<and> supported (or_str (c_mechanism c) [])
           \<and> processMetrics t (fst e) c (or_str (c_mechanism c) []) m = Some q"
proof -
  from assms obtain e where e: "e \<in> set (case r_metricsByContract raw of None \<Rightarrow> [] | Some ms \<Rightarrow> ms)"
    and q: "q \<in> set (processEntry t
         (contractsLookup (case r_contracts raw of None \<Rightarrow> [] | Some cs \<Rightarrow> cs)) e)"
    by (auto simp: processPositions_def Let_def)
  from processEntry_member[OF q] e show ?thesis by blast
qed

lemma amm_guard:
  "(if gt0 (YES pl) \<and> gt0 (NO pl) then calculateSaleValue s oc pl p mech else 0)
   = calculateSaleValue s oc pl p mech"
  by (auto simp: gt0_def calculateSaleValue_def or_num_def Let_def split: option.splits)

lemma fallback_not_Null: "fallbackProbability pr pl = Some pr' \<Longrightarrow> pr' \<noteq> Null"
  by (auto simp: fallbackProbability_def Let_def split: if_splits)

lemma processMetrics_fields:
  assumes "processMetrics t cid c mech m = Some q"
  shows "(outcome q = ''YES'' \<or> outcome q = ''NO'')
     \<and> (case probability q of
          Val pr \<Rightarrow> fairValue q = Num (if outcome q = ''YES'' then shares q * pr else shares q * (1 - pr))
        | Undefined \<Rightarrow> fairValue q = NaN
        | Null \<Rightarrow> False)
     \<and> saleValue q =
         (if 0 < calculateSaleValue (shares q) (outcome q) (fst (snd (resolveMarket mech c (m_answerId m))))
                  (or_num (c_p c) 0.5) mech
          then Num (calculateSaleValue (shares q) (outcome q)
                  (fst (snd (resolveMarket mech c (m_answerId m)))) (or_num (c_p c) 0.5) mech)
          else fairValue q)
     \<and> slippage q =
         (case fairValue q of
            Num fv \<Rightarrow>
              if 0 < fv \<and> 0 < calculateSaleValue (shares q) (outcome q)
                                  (fst (snd (resolveMarket mech c (m_answerId m)))) (or_num (c_p c) 0.5) mech
              then Num ((fv - calculateSaleValue (shares q) (outcome q)
                           (fst (snd (resolveMarket mech c (m_answerId m)))) (or_num (c_p c) 0.5) mech) / fv)
              else Num 0
          | NaN \<Rightarrow> Num 0)"
proof -
  obtain pr0 pl atx where rm: "resolveMarket mech c (m_answerId m) = (pr0, pl, atx)"
    by (cases "resolveMarket mech c (m_answerId m)") auto
  from assms obtain pr' where fb: "fallbackProbability pr0 pl = Some pr'"
    by (auto simp: processMetrics_def Let_def rm split: if_splits option.splits)
  have nn: "pr' \<noteq> Null" by (rule fallback_not_Null[OF fb])
  let ?ts = "case m_totalShares m of None \<Rightarrow> emptyPool | Some ts \<Rightarrow> ts"
  let ?ys = "or_num (YES ?ts) 0"
  let ?ns = "or_num (NO ?ts) 0"
  let ?oc = "if ?ys > ?ns then ''YES'' else ''NO''"
  let ?sh = "if ?ys > ?ns then ?ys else ?ns"
  let ?amm = "calculateSaleValue ?sh ?oc pl (or_num (c_p c) 0.5) mech"
  let ?fv = "calculateSimpleSaleValue ?sh pr' ?oc"
  have nA: "\<not> (?ys \<le> 0 \<and> ?ns \<le> 0)"
  proof
    assume "?ys \<le> 0 \<and> ?ns \<le> 0"
    then have "processMetrics t cid c mech m = None"
      unfolding processMetrics_def Let_def by (rule if_P)
    with assms show False by simp
  qed
  have nB: "\<not> ?sh < 0.01"
  proof
    assume "?sh < 0.01"
    then have "processMetrics t cid c mech m = None"
      unfolding processMetrics_def Let_def if_not_P[OF nA] by (rule if_P)
    with assms show False by simp
  qed
  from assms have oc: "outcome q = ?oc" and sh: "shares q = ?sh" and pr: "probability q = pr'"
    and fv: "fairValue q = ?fv"
    and sv: "saleValue q = (if ?amm > 0 then Num ?amm else ?fv)"
    and sl: "slippage q = (if num_gt0 ?fv \<and> ?amm > 0 then lift2 (/) (lift2 (-) ?fv (Num ?amm)) ?fv else Num 0)"
    unfolding processMetrics_def Let_def if_not_P[OF nA] if_not_P[OF nB] rm prod.case fb option.case amm_guard
    by auto
  show ?thesis
    unfolding oc sh pr fv sv sl rm fst_conv snd_conv
    using nn by (cases pr') (simp_all add: calculateSimpleSaleValue_def)
qed

lemma findAnswer_find:
  "findAnswer as aid =
     (case find (\<lambda>a. a_id a = aid) as of
        None \<Rightarrow> (Null, emptyPool, None)
      | Some ans \<Rightarrow>
          if a_resolution ans \<noteq> Undefined \<and> a_resolution ans \<noteq> Null then (Null, emptyPool, None)
          else (a_prob ans,
                \<lparr>YES = Some (or_num (a_poolYes ans) 0), NO = Some (or_num (a_poolNo ans) 0)\<rparr>,
                Some (or_str (a_text ans) [])))"
  by (induction as) simp_all

lemma fallback_empty: "fallbackProbability Null emptyPool = None"
  by (simp add: fallbackProbability_def emptyPool_def or_num_def)

lemma resolveMarket_source:
  assumes sup: "supported mech"
    and rm: "resolveMarket mech c aid = (pr0, pl, atx)"
    and fb: "fallbackProbability pr0 pl = Some pr'"
  shows "(mech = ''cpmm-1'' \<and> pr0 = c_prob c
            \<and> pl = (case c_pool c of None \<Rightarrow> emptyPool | Some x \<Rightarrow> x))
       \<or> (mech = ''cpmm-multi-1''
            \<and> (\<exists>a ans. aid = Some a \<and> a \<noteq> []
                 \<and> find (\<lambda>x. a_id x = a) (case c_answers c of None \<Rightarrow> [] | Some as \<Rightarrow> as) = Some ans
                 \<and> (a_resolution ans = Undefined \<or> a_resolution ans = Null)
                 \<and> pr0 = a_prob ans
                 \<and> pl = \<lparr>YES = Some (or_num (a_poolYes ans) 0), NO = Some (or_num (a_poolNo ans) 0)\<rparr>))"
proof (cases "mech = ''cpmm-1''")
  case True
  with rm show ?thesis by (simp add: resolveMarket_def)
next
  case False
  with sup have multi: "mech = ''cpmm-multi-1''" by (simp add: supported_def)
  have ne: "(pr0, pl, atx) \<noteq> (Null, emptyPool, None)"
    using fb fallback_empty by auto
  show ?thesis
  proof (cases "truthy_str aid")
    case nt: False
    with rm multi ne show ?thesis by (simp add: resolveMarket_def)
  next
    case tr: True
    then obtain a where a: "aid = Some a" "a \<noteq> []"
      by (auto simp: truthy_str_def split: option.splits)
    let ?as = "case c_answers c of None \<Rightarrow> [] | Some as \<Rightarrow> as"
    from rm multi tr a have fa: "findAnswer ?as a = (pr0, pl, atx)"
      by (simp add: resolveMarket_def)
    show ?thesis
    proof (cases "find (\<lambda>x. a_id x = a) ?as")
      case None
      with fa ne show ?thesis by (simp add: findAnswer_find)
    next
      case (Some ans)
      with fa ne have "a_resolution ans = Undefined \<or> a_resolution ans = Null"
        and "pr0 = a_prob ans"
        and "pl = \<lparr>YES = Some (or_num (a_poolYes ans) 0), NO = Some (or_num (a_poolNo ans) 0)\<rparr>"
        by (auto simp: findAnswer_find split: if_splits)
      with multi a Some show ?thesis by blast
    qed
  qed
qed

lemma processMetrics_record:
  assumes pm: "processMetrics t cid c mech m = Some q"
    and rm: "resolveMarket mech c (m_answerId m) = (pr0, pl, atx)"
  shows "contractId q = cid"
    and "shares q = max (or_num (YES (case m_totalShares m of None \<Rightarrow> emptyPool | Some ts \<Rightarrow> ts)) 0)
                        (or_num (NO (case m_totalShares m of None \<Rightarrow> emptyPool | Some ts \<Rightarrow> ts)) 0)"
    and "outcome q =
          (if or_num (NO (case m_totalShares m of None \<Rightarrow> emptyPool | Some ts \<Rightarrow> ts)) 0
              < or_num (YES (case m_totalShares m of None \<Rightarrow> emptyPool | Some ts \<Rightarrow> ts)) 0
           then ''YES'' else ''NO'')"
    and "fallbackProbability pr0 pl = Some (probability q)"
proof -
  from pm obtain pr' where fb: "fallbackProbability pr0 pl = Some pr'"
    by (auto simp: processMetrics_def Let_def rm split: if_splits option.splits)
  let ?ts = "case m_totalShares m of None \<Rightarrow> emptyPool | Some ts \<Rightarrow> ts"
  let ?ys = "or_num (YES ?ts) 0"
  let ?ns = "or_num (NO ?ts) 0"
  let ?sh = "if ?ys > ?ns then ?ys else ?ns"
  have nA: "\<not> (?ys \<le> 0 \<and> ?ns \<le> 0)"
  proof
    assume "?ys \<le> 0 \<and> ?ns \<le> 0"
    then have "processMetrics t cid c mech m = None"
      unfolding processMetrics_def Let_def by (rule if_P)
    with pm show False by simp
  qed
  have nB: "\<not> ?sh < 0.01"
  proof
    assume "?sh < 0.01"
    then have "processMetrics t cid c mech m = None"
      unfolding processMetrics_def Let_def if_not_P[OF nA] by (rule if_P)
    with pm show False by simp
  qed
  from pm have ci: "contractId q = cid" and sh: "shares q = ?sh"
    and oc: "outcome q = (if ?ys > ?ns then ''YES'' else ''NO'')" and pr: "probability q = pr'"
    unfolding processMetrics_def Let_def if_not_P[OF nA] if_not_P[OF nB] rm prod.case fb option.case
    by auto
  show "contractId q = cid" by (rule ci)
  show "shares q = max ?ys ?ns" unfolding sh by (simp add: max_def)
  show "outcome q = (if ?ns < ?ys then ''YES'' else ''NO'')" by (rule oc)
  show "fallbackProbability pr0 pl = Some (probability q)" unfolding pr by (rule fb)
qed

lemma fallback_result:
  assumes "fallbackProbability pr0 pl = Some pr'"
  shows "pr' = (if pr0 = Null
                then Val (or_num (NO pl) 0 / (or_num (YES pl) 0 + or_num (NO pl) 0)) else pr0)"
  using assms by (auto simp: fallbackProbability_def Let_def split: if_splits)

text \<open>
  Claim C7. Every valuation that \<open>processPositions\<close> emits comes from an entry of the
  metrics, one holding \<open>m\<close> of that entry and the market \<open>c\<close> that the lookup returns for the
  entry's key, whose id is that key. Its shares are the larger side of the holding and its
  outcome is YES when the YES side is strictly larger, NO otherwise. The probability \<open>pr0\<close>
  and the pool \<open>pl\<close> are those of the market for \<^verbatim>\<open>cpmm-1\<close>, and for \<^verbatim>\<open>cpmm-multi-1\<close> those
  of the first answer with the holding's answer id, which is unresolved; a probability that
  is \<^verbatim>\<open>null\<close> is replaced by \<open>NO / (YES + NO)\<close> of that pool. With \<open>amm\<close> the liquidation
  value of the shares against that pool at the market's weight (0.5 when absent): the fair
  value is \<open>shares * probability\<close> for YES and \<open>shares * (1 - probability)\<close> for NO; the sale
  value is \<open>amm\<close> when that is positive and the fair value otherwise; the slippage is
  \<open>(fairValue - amm) / fairValue\<close> when both are positive and 0 otherwise. (A probability
  read from a missing field is \<open>Undefined\<close>, and the product is then NaN.)
\<close>

theorem valuation_fields:
  assumes "q \<in> set (processPositions t raw)"
  shows "\<exists>c e m pr0 pl amm.
      e \<in> set (case r_metricsByContract raw of None \<Rightarrow> [] | Some ms \<Rightarrow> ms)
    \<and> m \<in> set (snd e)
    \<and> contractsLookup (case r_contracts raw of None \<Rightarrow> [] | Some cs \<Rightarrow> cs) (fst e) = Some c
    \<and> c_id c = fst e
    \<and> processMetrics t (fst e) c (or_str (c_mechanism c) []) m = Some q
    \<and> contractId q = fst e
    \<and> shares q = max (or_num (YES (case m_totalShares m of None \<Rightarrow> emptyPool | Some ts \<Rightarrow> ts)) 0)
                      (or_num (NO (case m_totalShares m of None \<Rightarrow> emptyPool | Some ts \<Rightarrow> ts)) 0)
    \<and> outcome q =
          (if or_num (NO (case m_totalShares m of None \<Rightarrow> emptyPool | Some ts \<Rightarrow> ts)) 0
              < or_num (YES (case m_totalShares m of None \<Rightarrow> emptyPool | Some ts \<Rightarrow> ts)) 0
           then ''YES'' else ''NO'')
    \<and> ((or_str (c_mechanism c) [] = ''cpmm-1'' \<and> pr0 = c_prob c
            \<and> pl = (case c_pool c of None \<Rightarrow> emptyPool | Some x \<Rightarrow> x))
       \<or> (or_str (c_mechanism c) [] = ''cpmm-multi-1''
            \<and> (\<exists>a ans. m_answerId m = Some a \<and> a \<noteq> []
                 \<and> find (\<lambda>x. a_id x = a) (case c_answers c of None \<Rightarrow> [] | Some as \<Rightarrow> as) = Some ans
                 \<and> (a_resolution ans = Undefined \<or> a_resolution ans = Null)
                 \<and> pr0 = a_prob ans
                 \<and> pl = \<lparr>YES = Some (or_num (a_poolYes ans) 0), NO = Some (or_num (a_poolNo ans) 0)\<rparr>)))
    \<and> probability q =
          (if pr0 = Null then Val (or_num (NO pl) 0 / (or_num (YES pl) 0 + or_num (NO pl) 0)) else pr0)
    \<and> amm = calculateSaleValue (shares q) (outcome q) pl (or_num (c_p c) 0.5) (or_str (c_mechanism c) [])
    \<and> (outcome q = ''YES'' \<or> outcome q = ''NO'')
    \<and> (case probability q of
          Val pr \<Rightarrow> fairValue q = Num (if outcome q = ''YES'' then shares q * pr else shares q * (1 - pr))
        | Undefined \<Rightarrow> fairValue q = NaN
        | Null \<Rightarrow> False)
    \<and> saleValue q = (if 0 < amm then Num amm else fairValue q)
    \<and> slippage q =
         (case fairValue q of
            Num fv \<Rightarrow> if 0 < fv \<and> 0 < amm then Num ((fv - amm) / fv) else Num 0
          | NaN \<Rightarrow> Num 0)"
proof -
  from processPositions_source[OF assms] obtain c e m where
    e: "e \<in> set (case r_metricsByContract raw of None \<Rightarrow> [] | Some ms \<Rightarrow> ms)"
    and m: "m \<in> set (snd e)"
    and c: "contractsLookup (case r_contracts raw of None \<Rightarrow> [] | Some cs \<Rightarrow> cs) (fst e) = Some c"
    and sup: "supported (or_str (c_mechanism c) [])"
    and pm: "processMetrics t (fst e) c (or_str (c_mechanism c) []) m = Some q"
    by blast
  obtain pr0 pl atx where
    rm: "resolveMarket (or_str (c_mechanism c) []) c (m_answerId m) = (pr0, pl, atx)"
    by (cases "resolveMarket (or_str (c_mechanism c) []) c (m_answerId m)") auto
  note rec = processMetrics_record[OF pm rm]
  note src = resolveMarket_source[OF sup rm rec(4)]
  note prb = fallback_result[OF rec(4)]
  have pl: "fst (snd (resolveMarket (or_str (c_mechanism c) []) c (m_answerId m))) = pl"
    by (simp add: rm)
  note fld = processMetrics_fields[OF pm, unfolded pl]
  from e m c contractsLookup_id[OF c] pm rec(1,2,3) src prb fld
  show ?thesis by blast
qed

lemma shares_half_NO:
  assumes "0 < or_num (YES pool) 0" "0 < or_num (NO pool) 0" "0 \<le> b" "oc \<noteq> ''YES''"
  shows "calculateCpmmShares pool (1/2) b oc =
         or_num (NO pool) 0 + b - or_num (NO pool) 0 * or_num (YES pool) 0 / (b + or_num (YES pool) 0)"
proof -
  have "0 < b + or_num (YES pool) 0" using assms by simp
  then show ?thesis
    using shares_NO_closed[OF assms(1,2) _ _ assms(3,4), of "1/2"] assms(1) by simp
qed

lemma amm_m1:
  "calculateSaleValue 10 ''YES'' \<lparr>YES = Some 50, NO = Some 50\<rparr> (1/2) ''cpmm-1'' = 77835 / 16384"
proof -
  have f: "\<And>b. 0 \<le> b \<Longrightarrow>
      calculateCpmmShares \<lparr>YES = Some 50, NO = Some 50\<rparr> (1/2) b ''NO'' = 50 + b - 2500 / (b + 50)"
    using shares_half_NO[of "\<lparr>YES = Some 50, NO = Some 50\<rparr>" _ "''NO''"] by (simp add: or_num_def)
  have "initialMinAmount \<lparr>YES = Some 50, NO = Some 50\<rparr> 10 ''NO'' = 5"
    by (simp add: initialMinAmount_def poolProb_def or_num_def)
  moreover have "bisect \<lparr>YES = Some 50, NO = Some 50\<rparr> (1/2) 10 ''NO'' 0 5 10 0 = 86005 / 16384"
    by (simp add: bisect.simps f Let_def)
  ultimately have "calculateAmountToBuyShares \<lparr>YES = Some 50, NO = Some 50\<rparr> (1/2) 10 ''NO''
      = 86005 / 16384"
    by (simp add: calculateAmountToBuyShares_def)
  then show ?thesis
    by (simp add: calculateSaleValue_def supported_def opposite_def or_num_def Let_def)
qed

lemma amm_m2:
  "calculateSaleValue 10 ''NO'' \<lparr>YES = Some 30, NO = Some 70\<rparr> (1/2) ''cpmm-multi-1'' = 45849 / 16384"
proof -
  have f: "\<And>b. 0 \<le> b \<Longrightarrow>
      calculateCpmmShares \<lparr>YES = Some 30, NO = Some 70\<rparr> (1/2) b ''YES'' = 30 + b - 2100 / (b + 70)"
    using shares_half_YES[of "\<lparr>YES = Some 30, NO = Some 70\<rparr>"] by (simp add: or_num_def)
  have "initialMinAmount \<lparr>YES = Some 30, NO = Some 70\<rparr> 10 ''YES'' = 7"
    by (simp add: initialMinAmount_def poolProb_def or_num_def)
  moreover have "bisect \<lparr>YES = Some 30, NO = Some 70\<rparr> (1/2) 10 ''YES'' 0 7 10 0 = 117991 / 16384"
    by (simp add: bisect.simps f Let_def)
  ultimately have "calculateAmountToBuyShares \<lparr>YES = Some 30, NO = Some 70\<rparr> (1/2) 10 ''YES''
      = 117991 / 16384"
    by (simp add: calculateAmountToBuyShares_def)
  then show ?thesis
    by (simp add: calculateSaleValue_def supported_def opposite_def or_num_def Let_def)
qed

lemma ammRaw_positions:
  "map (\<lambda>q. (contractId q, answer q, outcome q, shares q, probability q, fairValue q, saleValue q,
              slippage q))
       (processPositions 0 ammRaw)
   = [(''m1'', None, ''YES'', 10, Val (1/2), Num 5, Num (77835 / 16384), Num (817 / 16384)),
      (''m2'', Some ''B'', ''NO'', 10, Val (7/10), Num 3, Num (45849 / 16384), Num (1101 / 16384))]"
  by (simp add: processPositions_def processEntry_def processMetrics_def ammRaw_def
        ammContract1_def ammContract2_def contractsLookup_def Let_def supported_def or_str_def
        or_num_def resolveMarket_def fallbackProbability_def map_filter_simps emptyPool_def gt0_def
        truthy_num_def truthy_str_def calculateSimpleSaleValue_def amm_m1 amm_m2)

text \<open>The two valuations of the portfolio \<open>ammRaw\<close>, read at time 0: ten YES shares
  against the pool of 50 and 50, and ten NO shares against the pool of 30 and 70 of the
  answer \<open>b\<close>. Both liquidation values are positive and below the fair value.\<close>

theorem valuation_fields_witness:
  "hd (processPositions 0 ammRaw) \<in> set (processPositions 0 ammRaw)
   \<and> fairValue (hd (processPositions 0 ammRaw)) = Num (10 * (1/2))
   \<and> saleValue (hd (processPositions 0 ammRaw))
       = Num (calculateSaleValue 10 ''YES'' \<lparr>YES = Some 50, NO = Some 50\<rparr> (1/2) ''cpmm-1'')
   \<and> saleValue (hd (processPositions 0 ammRaw)) = Num (77835 / 16384)
   \<and> slippage (hd (processPositions 0 ammRaw)) = Num ((5 - 77835 / 16384) / 5)
   \<and> last (processPositions 0 ammRaw) \<in> set (processPositions 0 ammRaw)
   \<and> fairValue (last (processPositions 0 ammRaw)) = Num (10 * (1 - 7/10))
   \<and> saleValue (last (processPositions 0 ammRaw))
       = Num (calculateSaleValue 10 ''NO'' \<lparr>YES = Some 30, NO = Some 70\<rparr> (1/2) ''cpmm-multi-1'')
   \<and> saleValue (last (processPositions 0 ammRaw)) = Num (45849 / 16384)
   \<and> slippage (last (processPositions 0 ammRaw)) = Num ((3 - 45849 / 16384) / 3)"
proof -
  from ammRaw_positions obtain q1 q2 where ps: "processPositions 0 ammRaw = [q1, q2]"
    and q1: "contractId q1 = ''m1''" "outcome q1 = ''YES''" "shares q1 = 10" "probability q1 = Val (1/2)"
    and q2: "contractId q2 = ''m2''" "outcome q2 = ''NO''" "shares q2 = 10" "probability q2 = Val (7/10)"
    by (auto simp: map_eq_Cons_conv)
  have es: "(case r_metricsByContract ammRaw of None \<Rightarrow> [] | Some ms \<Rightarrow> ms)
      = [(''m1'', [\<lparr>m_totalShares = Some \<lparr>YES = Some 10, NO = None\<rparr>, m_answerId = None\<rparr>]),
         (''m2'', [\<lparr>m_totalShares = Some \<lparr>YES = Some 0, NO = Some 10\<rparr>, m_answerId = Some ''b''\<rparr>])]"
    by (simp add: ammRaw_def)
  have l1: "contractsLookup (case r_contracts ammRaw of None \<Rightarrow> [] | Some cs \<Rightarrow> cs) ''m1''
      = Some ammContract1"
    and l2: "contractsLookup (case r_contracts ammRaw of None \<Rightarrow> [] | Some cs \<Rightarrow> cs) ''m2''
      = Some ammContract2"
    by (simp_all add: ammRaw_def contractsLookup_def ammContract1_def ammContract2_def)
  have m1: "q1 \<in> set (processPositions 0 ammRaw)" and m2: "q2 \<in> set (processPositions 0 ammRaw)"
    by (simp_all add: ps)
  have first: "fairValue q1 = Num (10 * (1/2))
      \<and> saleValue q1 = Num (calculateSaleValue 10 ''YES'' \<lparr>YES = Some 50, NO = Some 50\<rparr> (1/2) ''cpmm-1'')
      \<and> slippage q1 = Num ((5 - 77835 / 16384) / 5)"
  proof -
    from valuation_fields[OF m1] obtain c e m pr0 pl amm where
      e: "e \<in> set (case r_metricsByContract ammRaw of None \<Rightarrow> [] | Some ms \<Rightarrow> ms)"
      and m: "m \<in> set (snd e)"
      and c: "contractsLookup (case r_contracts ammRaw of None \<Rightarrow> [] | Some cs \<Rightarrow> cs) (fst e) = Some c"
      and ci: "contractId q1 = fst e"
      and src: "(or_str (c_mechanism c) [] = ''cpmm-1'' \<and> pr0 = c_prob c
            \<and> pl = (case c_pool c of None \<Rightarrow> emptyPool | Some x \<Rightarrow> x))
         \<or> (or_str (c_mechanism c) [] = ''cpmm-multi-1''
            \<and> (\<exists>a ans. m_answerId m = Some a \<and> a \<noteq> []
                 \<and> find (\<lambda>x. a_id x = a) (case c_answers c of None \<Rightarrow> [] | Some as \<Rightarrow> as) = Some ans
                 \<and> (a_resolution ans = Undefined \<or> a_resolution ans = Null)
                 \<and> pr0 = a_prob ans
                 \<and> pl = \<lparr>YES = Some (or_num (a_poolYes ans) 0), NO = Some (or_num (a_poolNo ans) 0)\<rparr>))"
      and amm: "amm = calculateSaleValue (shares q1) (outcome q1) pl (or_num (c_p c) 0.5)
                  (or_str (c_mechanism c) [])"
      and fv: "case probability q1 of
          Val pr \<Rightarrow> fairValue q1 = Num (if outcome q1 = ''YES'' then shares q1 * pr else shares q1 * (1 - pr))
        | Undefined \<Rightarrow> fairValue q1 = NaN
        | Null \<Rightarrow> False"
      and sv: "saleValue q1 = (if 0 < amm then Num amm else fairValue q1)"
      and sl: "slippage q1 =
         (case fairValue q1 of
            Num fv \<Rightarrow> if 0 < fv \<and> 0 < amm then Num ((fv - amm) / fv) else Num 0
          | NaN \<Rightarrow> Num 0)"
      by (elim exE conjE) (rule that; assumption)
    from ci q1(1) have "fst e = ''m1''" by simp
    with c l1 have cc: "c = ammContract1" by simp
    from src have "pl = \<lparr>YES = Some 50, NO = Some 50\<rparr>"
      unfolding cc by (auto simp: ammContract1_def or_str_def)
    then have a: "amm = calculateSaleValue 10 ''YES'' \<lparr>YES = Some 50, NO = Some 50\<rparr> (1/2) ''cpmm-1''"
      unfolding amm cc q1 by (simp add: ammContract1_def or_str_def or_num_def)
    have a': "amm = 77835 / 16384" unfolding a by (rule amm_m1)
    from fv have f: "fairValue q1 = Num (10 * (1/2))" by (simp add: q1)
    from sv have s: "saleValue q1 = Num amm" by (simp add: a')
    from sl have "slippage q1 = Num ((5 - 77835 / 16384) / 5)" by (simp add: f a')
    with f s a show ?thesis by simp
  qed
  have second: "fairValue q2 = Num (10 * (1 - 7/10))
      \<and> saleValue q2 = Num (calculateSaleValue 10 ''NO'' \<lparr>YES = Some 30, NO = Some 70\<rparr> (1/2) ''cpmm-multi-1'')
      \<and> slippage q2 = Num ((3 - 45849 / 16384) / 3)"
  proof -
    from valuation_fields[OF m2] obtain c e m pr0 pl amm where
      e: "e \<in> set (case r_metricsByContract ammRaw of None \<Rightarrow> [] | Some ms \<Rightarrow> ms)"
      and m: "m \<in> set (snd e)"
      and c: "contractsLookup (case r_contracts ammRaw of None \<Rightarrow> [] | Some cs \<Rightarrow> cs) (fst e) = Some c"
      and ci: "contractId q2 = fst e"
      and src: "(or_str (c_mechanism c) [] = ''cpmm-1'' \<and> pr0 = c_prob c
            \<and> pl = (case c_pool c of None \<Rightarrow> emptyPool | Some x \<Rightarrow> x))
         \<or> (or_str (c_mechanism c) [] = ''cpmm-multi-1''
            \<and> (\<exists>a ans. m_answerId m = Some a \<and> a \<noteq> []
                 \<and> find (\<lambda>x. a_id x = a) (case c_answers c of None \<Rightarrow> [] | Some as \<Rightarrow> as) = Some ans
                 \<and> (a_resolution ans = Undefined \<or> a_resolution ans = Null)
                 \<and> pr0 = a_prob ans
                 \<and> pl = \<lparr>YES = Some (or_num (a_poolYes ans) 0), NO = Some (or_num (a_poolNo ans) 0)\<rparr>))"
      and amm: "amm = calculateSaleValue (shares q2) (outcome q2) pl (or_num (c_p c) 0.5)
                  (or_str (c_mechanism c) [])"
      and fv: "case probability q2 of
          Val pr \<Rightarrow> fairValue q2 = Num (if outcome q2 = ''YES'' then shares q2 * pr else shares q2 * (1 - pr))
        | Undefined \<Rightarrow> fairValue q2 = NaN
        | Null \<Rightarrow> False"
      and sv: "saleValue q2 = (if 0 < amm then Num amm else fairValue q2)"
      and sl: "slippage q2 =
         (case fairValue q2 of
            Num fv \<Rightarrow> if 0 < fv \<and> 0 < amm then Num ((fv - amm) / fv) else Num 0
          | NaN \<Rightarrow> Num 0)"
      by (elim exE conjE) (rule that; assumption)
    from ci q2(1) have fe: "fst e = ''m2''" by simp
    with c l2 have cc: "c = ammContract2" by simp
    from e fe have "snd e = [\<lparr>m_totalShares = Some \<lparr>YES = Some 0, NO = Some 10\<rparr>, m_answerId = Some ''b''\<rparr>]"
      unfolding es by auto
    with m have ma: "m_answerId m = Some ''b''" by simp
    from src have "pl = \<lparr>YES = Some 30, NO = Some 70\<rparr>"
      unfolding cc ma by (auto simp: ammContract2_def or_str_def or_num_def)
    then have a: "amm = calculateSaleValue 10 ''NO'' \<lparr>YES = Some 30, NO = Some 70\<rparr> (1/2) ''cpmm-multi-1''"
      unfolding amm cc q2 by (simp add: ammContract2_def or_str_def or_num_def)
    have a': "amm = 45849 / 16384" unfolding a by (rule amm_m2)
    from fv have f: "fairValue q2 = Num (10 * (1 - 7/10))" by (simp add: q2)
    from sv have s: "saleValue q2 = Num amm" by (simp add: a')
    from sl have "slippage q2 = Num ((3 - 45849 / 16384) / 3)" by (simp add: f a')
    with f s a show ?thesis by simp
  qed
  from first second show ?thesis by (simp add: ps amm_m1 amm_m2)
qed

text \<open>
  When a holding of a live market with a supported mechanism is emitted: the dominant side
  is positive and at least 0.01, and the probability read is not \<^verbatim>\<open>null\<close> or the pool
  resolved for the holding has two positive reserves.
\<close>

lemma processMetrics_emits:
  "(processMetrics t cid c mech m \<noteq> None) =
     (let ts = (case m_totalShares m of None \<Rightarrow> emptyPool | Some x \<Rightarrow> x);
          ys = or_num (YES ts) 0;
          ns = or_num (NO ts) 0;
          pr = fst (resolveMarket mech c (m_answerId m));
          pl = fst (snd (resolveMarket mech c (m_answerId m)))
      in (0 < ys \<or> 0 < ns) \<and> 1 / 100 \<le> max ys ns
         \<and> (pr \<noteq> Null \<or> (0 < or_num (YES pl) 0 \<and> 0 < or_num (NO pl) 0)))"
proof -
  obtain pr0 pl atx where rm: "resolveMarket mech c (m_answerId m) = (pr0, pl, atx)"
    by (cases "resolveMarket mech c (m_answerId m)") auto
  show ?thesis
    unfolding processMetrics_def Let_def rm prod.case fst_conv snd_conv
    by (auto simp: fallbackProbability_def Let_def max_def not_le not_less split: option.splits if_splits)
qed

text \<open>
  Claim C8. A holding is dropped when no probability can be resolved and the pool is
  unusable; but the fallback tests \<^verbatim>\<open>probability === null\<close>, and a market without a
  \<^verbatim>\<open>prob\<close> field gives \<^verbatim>\<open>undefined\<close>. The single-outcome market of \<open>noProbRaw\<close> has
  neither a probability nor a pool, and its holding of ten YES shares is emitted, with the
  probability \<open>Undefined\<close> and the fair value and sale value NaN.
\<close>

theorem missing_probability_is_emitted:
  "map (\<lambda>q. (outcome q, shares q, probability q, fairValue q, saleValue q, returnIfCorrect q))
       (processPositions t noProbRaw)
   = [(''YES'', 10, Undefined, NaN, NaN, None)]"
  by (simp add: processPositions_def processEntry_def processMetrics_def noProbRaw_def
        noProbContract_def contractsLookup_def Let_def supported_def or_str_def or_num_def
        resolveMarket_def fallbackProbability_def map_filter_simps emptyPool_def gt0_def
        truthy_num_def calculateSimpleSaleValue_def calculateReturnIfCorrect_def)

end
